theory Spec2Isabelle
  imports Complex_Main "HOL-Library.Log_Nat"
begin

section \<open>Text produced by JavaScript conversions\<close>

text \<open>
  Texts are byte strings: a character outside ASCII stands as its UTF-8 bytes, which is
  what \<^verbatim>\<open>downloadFile\<close> writes when it wraps the content in a \<^verbatim>\<open>Blob\<close>.
  No function modelled here measures the length of a text.
\<close>

definition digit_char :: "nat \<Rightarrow> char" where
  "digit_char d = ''0123456789'' ! d"

text \<open>Decimal text of a non-negative integer, as a template literal prints it.\<close>

function show_nat :: "nat \<Rightarrow> string" where
  "show_nat n = (if n < 10 then [digit_char n] else show_nat (n div 10) @ [digit_char (n mod 10)])"
  by pat_completeness auto
termination
  by (relation "measure id") auto

declare show_nat.simps [simp del]

text \<open>Decimal text of an integer (identifiers and counters stay far below \<open>10\<^sup>2\<^sup>1\<close>,
  where JavaScript would switch to exponent notation).\<close>

definition show_int :: "int \<Rightarrow> string" where
  "show_int i = (if i < 0 then CHR ''-'' # show_nat (nat (- i)) else show_nat (nat i))"

definition show_bool :: "bool \<Rightarrow> string" where
  "show_bool b = (if b then ''true'' else ''false'')"

definition newline :: char where
  "newline = CHR 0x0A"

definition dquote :: char where
  "dquote = CHR 0x22"

text \<open>\<^verbatim>\<open>Array.prototype.join\<close> on an array of texts.\<close>

fun join :: "string \<Rightarrow> string list \<Rightarrow> string" where
  "join sep [] = []"
| "join sep [x] = x"
| "join sep (x # y # ys) = x @ sep @ join sep (y # ys)"

section \<open>Records fetched from the backend\<close>

text \<open>
  \<^verbatim>\<open>GET /eventos\<close> returns rows of the table \<^verbatim>\<open>eventos\<close> with the camera's name.
  The field \<^verbatim>\<open>id\<close> is \<open>id_ev\<close> here, since \<open>id\<close> is the identity function of HOL.
\<close>

record event =
  id_ev :: int
  tipo :: string
  severidad :: string
  descripcion :: string
  timestamp :: string
  camara_nombre :: string
  resuelto :: bool

text \<open>
  A detection as \<^verbatim>\<open>GET /detecciones\<close> returns it. \<open>apellido\<close> may be null. The
  confidence is a JavaScript number, a binary64 double; the field holds the exact value
  of that double as a rational (\<open>to_double\<close> below gives the double of a decimal).
\<close>

record detection =
  nombre :: string
  apellido :: "string option"
  es_desconocido :: bool
  confianza :: rat
  timestamp_det :: string

record stats =
  personas_registradas :: int
  detecciones_hoy :: int
  personas_unicas_hoy :: int
  desconocidos_hoy :: int
  eventos_pendientes :: int
  camaras_activas :: int

text \<open>
  What \<^verbatim>\<open>await fetch(...)\<close> followed by \<^verbatim>\<open>await response.json()\<close> can give: the
  fetch rejects, the body does not parse, or a JSON object with its \<^verbatim>\<open>success\<close> flag
  and its \<^verbatim>\<open>data\<close> member (\<open>None\<close> when the member is absent).
\<close>

datatype 'a fetched = NetworkError | ParseError | Reply bool "'a option"

section \<open>The page: global variables, the toast, the console\<close>

text \<open>The fetches that the loaders of the dashboard issue.\<close>

datatype request = StatsRequest | DeteccionesRequest | EventosRequest

record page =
  notifications :: "int list"
  toast_className :: "string list"
  toastTitle :: string
  toastMessage :: string
  notificationCount :: string
  statPersonas :: string
  statDetecciones :: string
  statDesconocidos :: string
  statEventos :: string
  deteccionesList :: string
  clock :: nat
  timeouts :: "nat list"
  console :: "string list"
  in_flight :: "request list"
  interval_due :: "nat option"
  shown :: "(string \<times> string \<times> string) list"

text \<open>
  \<open>notifications\<close> is the global array of line 6. \<open>toast_className\<close> holds the class
  tokens of the element \<^verbatim>\<open>#toast\<close>; the toast is on screen while the token
  \<^verbatim>\<open>active\<close> is among them. \<open>clock\<close> is the time in milliseconds and \<open>timeouts\<close>
  the instants at which the callbacks queued by \<^verbatim>\<open>setTimeout\<close> are due; every such
  callback of the program is the one of \<^verbatim>\<open>showNotification\<close>. \<open>console\<close> collects the
  messages of \<^verbatim>\<open>console.error\<close>. The \<open>stat\<close> fields and \<open>notificationCount\<close> are
  the text contents of the elements of these names, \<open>deteccionesList\<close> is the inner
  HTML of its element. \<open>in_flight\<close> holds the fetches that were issued and have not
  been answered, \<open>interval_due\<close> the instant at which the callback of
  \<^verbatim>\<open>setInterval\<close> runs next (\<open>None\<close> while no interval is set). \<open>shown\<close> is not a
  variable of the program: it records the arguments of every call of
  \<^verbatim>\<open>showNotification\<close>, in order.
\<close>

text \<open>
  The page when the script has been loaded: the array is empty (line 6), nothing has been
  queued or logged. The texts of the elements come from the HTML document, which is not
  among the sources; they are empty here, and no property below depends on them.
\<close>

definition init_page :: page where
  "init_page = \<lparr> notifications = [], toast_className = [''toast''], toastTitle = [],
     toastMessage = [], notificationCount = [], statPersonas = [], statDetecciones = [],
     statDesconocidos = [], statEventos = [], deteccionesList = [], clock = 0,
     timeouts = [], console = [], in_flight = [], interval_due = None, shown = [] \<rparr>"

definition console_error :: "string \<Rightarrow> page \<Rightarrow> page" where
  "console_error msg s = s\<lparr>console := console s @ [msg]\<rparr>"

subsection \<open>The seen-event tracker\<close>

text \<open>
  The program has no tracker object: the three operations are expressions on the array.
  \<open>isNew\<close> is \<^verbatim>\<open>!notifications.includes(e.id)\<close> (line 38), \<open>markSeen\<close> is
  \<^verbatim>\<open>notifications.push(event.id)\<close> (line 47) and \<open>count\<close> is
  \<^verbatim>\<open>notifications.length\<close> (lines 51 and 60).
\<close>

fun array_includes :: "'a list \<Rightarrow> 'a \<Rightarrow> bool" where
  "array_includes [] x = False"
| "array_includes (y # ys) x = (y = x \<or> array_includes ys x)"

definition isNew :: "int \<Rightarrow> int list \<Rightarrow> bool" where
  "isNew x ns = (\<not> array_includes ns x)"

definition markSeen :: "int \<Rightarrow> int list \<Rightarrow> int list" where
  "markSeen x ns = ns @ [x]"

definition count :: "int list \<Rightarrow> nat" where
  "count ns = length ns"

subsection \<open>showNotification\<close>

definition display_ms :: nat where
  "display_ms = 5000"

definition showNotification :: "string \<Rightarrow> string \<Rightarrow> string \<Rightarrow> page \<Rightarrow> page" where
  "showNotification title message type s =
     s\<lparr> toast_className := [''toast'', type, ''active''],
        toastTitle := title,
        toastMessage := message,
        timeouts := timeouts s @ [clock s + display_ms],
        shown := shown s @ [(title, message, type)] \<rparr>"

text \<open>The callback of line 73: \<^verbatim>\<open>toast.classList.remove('active')\<close>.\<close>

definition dismiss :: "page \<Rightarrow> page" where
  "dismiss s = s\<lparr>toast_className := removeAll ''active'' (toast_className s)\<rparr>"

text \<open>
  Time passes: the clock moves by \<open>d\<close> milliseconds and every callback due by then has
  run. All callbacks do the same, so one run of \<open>dismiss\<close> stands for them.
\<close>

definition advance :: "nat \<Rightarrow> page \<Rightarrow> page" where
  "advance d s =
     (let t = clock s + d;
          due = filter (\<lambda>k. k \<le> t) (timeouts s);
          s' = (if due = [] then s else dismiss s)
      in s'\<lparr>clock := t, timeouts := filter (\<lambda>k. \<not> k \<le> t) (timeouts s)\<rparr>)"

definition visible :: "page \<Rightarrow> bool" where
  "visible s = array_includes (toast_className s) ''active''"

text \<open>
  A notification request is the triple of title, message and kind; \<open>present\<close> is the call
  of \<^verbatim>\<open>showNotification\<close> with it. \<open>present_twice\<close> presents \<open>a\<close>, lets \<open>d\<close>
  milliseconds pass and presents \<open>b\<close>.
\<close>

fun present :: "string \<times> string \<times> string \<Rightarrow> page \<Rightarrow> page" where
  "present (title, message, type) s = showNotification title message type s"

definition present_twice :: "string \<times> string \<times> string \<Rightarrow> nat \<Rightarrow> string \<times> string \<times> string \<Rightarrow> page \<Rightarrow> page" where
  "present_twice a d b s = present b (advance d (present a s))"

subsection \<open>checkNewEvents\<close>

text \<open>The title is the siren emoji (U+1F6A8) followed by the words.\<close>

definition alert_title :: string where
  "alert_title = [CHR 0xF0, CHR 0x9F, CHR 0x9A, CHR 0xA8] @ '' Nuevo Evento''"

definition notify_event :: "page \<Rightarrow> event \<Rightarrow> page" where
  "notify_event s e =
     (let s' = showNotification alert_title (tipo e @ '': '' @ descripcion e) ''error'' s
      in s'\<lparr>notifications := markSeen (id_ev e) (notifications s')\<rparr>)"

definition checkNewEvents :: "event list fetched \<Rightarrow> page \<Rightarrow> page" where
  "checkNewEvents r s =
     (case r of
        NetworkError \<Rightarrow> console_error ''Error verificando eventos:'' s
      | ParseError \<Rightarrow> console_error ''Error verificando eventos:'' s
      | Reply success d \<Rightarrow>
          if success then
            (case d of
               None \<Rightarrow> console_error ''Error verificando eventos:'' s
             | Some evs \<Rightarrow>
                 let newEvents = filter (\<lambda>e. isNew (id_ev e) (notifications s)) evs
                 in if length newEvents > 0 then
                      let s' = foldl notify_event s newEvents
                      in s'\<lparr>notificationCount := show_nat (count (notifications s'))\<rparr>
                    else s)
          else s)"

text \<open>One session of tracker operations, as a trace.\<close>

datatype tracker_op = IsNew int | MarkSeen int

fun tracker_step :: "int list \<Rightarrow> tracker_op \<Rightarrow> int list" where
  "tracker_step ns (IsNew x) = ns"
| "tracker_step ns (MarkSeen x) = markSeen x ns"

fun is_markSeen :: "tracker_op \<Rightarrow> bool" where
  "is_markSeen (IsNew x) = False"
| "is_markSeen (MarkSeen x) = True"

definition tracker_run :: "tracker_op list \<Rightarrow> int list" where
  "tracker_run ops = foldl tracker_step [] ops"

subsection \<open>loadStats and loadDetecciones\<close>

definition stats_error :: string where
  "stats_error = ''Error cargando estad'' @ [CHR 0xC3, CHR 0xAD] @ ''sticas:''"

definition loadStats :: "stats fetched \<Rightarrow> page \<Rightarrow> page" where
  "loadStats r s =
     (case r of
        NetworkError \<Rightarrow> console_error stats_error s
      | ParseError \<Rightarrow> console_error stats_error s
      | Reply success d \<Rightarrow>
          if success then
            (case d of
               None \<Rightarrow> console_error stats_error s
             | Some st \<Rightarrow>
                 s\<lparr> statPersonas := show_int (personas_registradas st),
                    statDetecciones := show_int (detecciones_hoy st),
                    statDesconocidos := show_int (desconocidos_hoy st),
                    statEventos := show_int (eventos_pendientes st),
                    notificationCount := show_int (eventos_pendientes st) \<rparr>)
          else s)"

definition no_detecciones_html :: string where
  \<open>no_detecciones_html =
     ''<p style="text-align: center; color: #999; padding: 40px;">No hay detecciones recientes</p>''\<close>

text \<open>
  \<open>item_html\<close> is the template of lines 112 to 125 for one detection; its text depends
  on \<^verbatim>\<open>formatDate\<close> and so on the locale of the browser, and it is a parameter here.
\<close>

definition loadDetecciones :: "(detection \<Rightarrow> string) \<Rightarrow> detection list fetched \<Rightarrow> page \<Rightarrow> page" where
  "loadDetecciones item_html r s =
     (case r of
        NetworkError \<Rightarrow> console_error ''Error cargando detecciones:'' s
      | ParseError \<Rightarrow> console_error ''Error cargando detecciones:'' s
      | Reply success d \<Rightarrow>
          if success then
            (case d of
               None \<Rightarrow> console_error ''Error cargando detecciones:'' s
             | Some dets \<Rightarrow>
                 if length dets > 0 then s\<lparr>deteccionesList := concat (map item_html dets)\<rparr>
                 else s\<lparr>deteccionesList := no_detecciones_html\<rparr>)
          else s\<lparr>deteccionesList := no_detecciones_html\<rparr>)"

text \<open>The replies with which the body of a \<^verbatim>\<open>try\<close> throws, and those the server refused.\<close>

fun thrown :: "'a fetched \<Rightarrow> bool" where
  "thrown NetworkError = True"
| "thrown ParseError = True"
| "thrown (Reply success d) = (success \<and> d = None)"

fun unsuccessful :: "'a fetched \<Rightarrow> bool" where
  "unsuccessful (Reply success d) = (\<not> success)"
| "unsuccessful r = False"

subsection \<open>init, the interval and the event loop\<close>

text \<open>
  A loader is an \<^verbatim>\<open>async\<close> function: its call runs up to \<^verbatim>\<open>await fetch(...)\<close>, which
  issues the fetch, and returns. What stands after the two \<^verbatim>\<open>await\<close>s, or the
  \<^verbatim>\<open>catch\<close> block, runs in one piece when the reply is there; these are the functions
  \<open>loadStats\<close>, \<open>loadDetecciones\<close> and \<open>checkNewEvents\<close> above. Replies arrive in any
  order, also across ticks.
\<close>

datatype arrival =
    StatsArrives "stats fetched"
  | DeteccionesArrive "detection list fetched"
  | EventosArrive "event list fetched"

fun request_of :: "arrival \<Rightarrow> request" where
  "request_of (StatsArrives r) = StatsRequest"
| "request_of (DeteccionesArrive r) = DeteccionesRequest"
| "request_of (EventosArrive r) = EventosRequest"

fun handle :: "(detection \<Rightarrow> string) \<Rightarrow> arrival \<Rightarrow> page \<Rightarrow> page" where
  "handle item_html (StatsArrives r) s = loadStats r s"
| "handle item_html (DeteccionesArrive r) s = loadDetecciones item_html r s"
| "handle item_html (EventosArrive r) s = checkNewEvents r s"

definition poll_ms :: nat where
  "poll_ms = 30000"

text \<open>
  The callback of line 21 calls the three loaders, so it issues three fetches. \<open>init\<close>
  (line 14) calls \<^verbatim>\<open>loadStats\<close> and \<^verbatim>\<open>loadDetecciones\<close> and sets the interval;
  \<^verbatim>\<open>loadActivity\<close> and \<^verbatim>\<open>startLiveSimulation\<close> write to elements that the page
  here does not hold.
\<close>

definition interval_callback :: "page \<Rightarrow> page" where
  "interval_callback s =
     s\<lparr>in_flight := in_flight s @ [StatsRequest, DeteccionesRequest, EventosRequest]\<rparr>"

definition init :: "page \<Rightarrow> page" where
  "init s = s\<lparr> in_flight := in_flight s @ [StatsRequest, DeteccionesRequest],
               interval_due := Some (clock s + poll_ms) \<rparr>"

text \<open>
  \<open>elapse d\<close>: \<open>d\<close> milliseconds pass. The callbacks of \<^verbatim>\<open>setTimeout\<close> that are due
  run as in \<open>advance\<close>, and the callback of the interval runs once for every instant of
  the interval reached; the interval stays set for the instant after.
\<close>

definition elapse :: "nat \<Rightarrow> page \<Rightarrow> page" where
  "elapse d s =
     (let s' = advance d s
      in case interval_due s of
           None \<Rightarrow> s'
         | Some due \<Rightarrow>
             if due \<le> clock s' then
               let n = (clock s' - due) div poll_ms + 1
               in ((interval_callback ^^ n) s')\<lparr>interval_due := Some (due + n * poll_ms)\<rparr>
             else s')"

text \<open>
  What the event loop runs next: time passes, or the reply to a fetch in flight arrives
  and its loader goes on. An arrival without a fetch in flight cannot happen (\<open>None\<close>).
  Which of several fetches of one kind is answered makes no difference to the page, so
  the first is taken out. The actions of the user are not among the events.
\<close>

datatype loop_event = Elapse nat | Arrive arrival

fun loop_step :: "(detection \<Rightarrow> string) \<Rightarrow> loop_event \<Rightarrow> page \<Rightarrow> page option" where
  "loop_step item_html (Elapse d) s = Some (elapse d s)"
| "loop_step item_html (Arrive a) s =
     (if array_includes (in_flight s) (request_of a)
      then Some (handle item_html a (s\<lparr>in_flight := remove1 (request_of a) (in_flight s)\<rparr>))
      else None)"

fun loop_run :: "(detection \<Rightarrow> string) \<Rightarrow> loop_event list \<Rightarrow> page \<Rightarrow> page option" where
  "loop_run item_html [] s = Some s"
| "loop_run item_html (e # es) s =
     (case loop_step item_html e s of
        None \<Rightarrow> None
      | Some s' \<Rightarrow> loop_run item_html es s')"

fun arrivals :: "loop_event list \<Rightarrow> arrival list" where
  "arrivals [] = []"
| "arrivals (Elapse d # es) = arrivals es"
| "arrivals (Arrive a # es) = a # arrivals es"

fun reply_thrown :: "arrival \<Rightarrow> bool" where
  "reply_thrown (StatsArrives r) = thrown r"
| "reply_thrown (DeteccionesArrive r) = thrown r"
| "reply_thrown (EventosArrive r) = thrown r"

fun reply_unsuccessful :: "arrival \<Rightarrow> bool" where
  "reply_unsuccessful (StatsArrives r) = unsuccessful r"
| "reply_unsuccessful (DeteccionesArrive r) = unsuccessful r"
| "reply_unsuccessful (EventosArrive r) = unsuccessful r"

fun error_message :: "arrival \<Rightarrow> string" where
  "error_message (StatsArrives r) = stats_error"
| "error_message (DeteccionesArrive r) = ''Error cargando detecciones:''"
| "error_message (EventosArrive r) = ''Error verificando eventos:''"

text \<open>The page with the fetch answered by \<open>a\<close> taken out of those in flight.\<close>

definition settled :: "arrival \<Rightarrow> page \<Rightarrow> page" where
  "settled a s = s\<lparr>in_flight := remove1 (request_of a) (in_flight s)\<rparr>"

definition erase_console :: "page \<Rightarrow> page" where
  "erase_console s = s\<lparr>console := []\<rparr>"

text \<open>
  The instants of the interval reached since the instant \<open>c0\<close>, and the interval being
  set for the instant after them.
\<close>

definition ticks_since :: "nat \<Rightarrow> page \<Rightarrow> nat" where
  "ticks_since c0 s = (clock s - c0) div poll_ms"

definition interval_set :: "nat \<Rightarrow> page \<Rightarrow> bool" where
  "interval_set c0 s \<longleftrightarrow>
     c0 \<le> clock s \<and> interval_due s = Some (c0 + (ticks_since c0 s + 1) * poll_ms)"

text \<open>
  A run in which three fetches fail: the statistics do not parse, 30 seconds pass, the
  fetch of the events rejects, the detections are refused, 30 more seconds pass.
\<close>

definition failing_run :: "loop_event list" where
  "failing_run = [Arrive (StatsArrives ParseError), Elapse 30000, Arrive (EventosArrive NetworkError),
     Arrive (DeteccionesArrive (Reply False None)), Elapse 30000]"



definition poll_session :: "event list fetched list \<Rightarrow> page" where
  "poll_session rs = foldl (\<lambda>s r. checkNewEvents r s) init_page rs"

text \<open>The identifiers of the events that a reply brings, none when it failed.\<close>

fun fetched_ids :: "event list fetched \<Rightarrow> int list" where
  "fetched_ids (Reply success (Some evs)) = (if success then map id_ev evs else [])"
| "fetched_ids r = []"

fun well_formed_reply :: "event list fetched \<Rightarrow> bool" where
  "well_formed_reply (Reply success (Some evs)) = distinct (map id_ev evs)"
| "well_formed_reply r = True"

definition example_event :: "int \<Rightarrow> event" where
  "example_event i = \<lparr> id_ev = i, tipo = ''intruso_detectado'', severidad = ''alta'',
     descripcion = ''Persona desconocida'', timestamp = ''2024-01-01 10:00:00'',
     camara_nombre = ''Entrada'', resuelto = False \<rparr>"

section \<open>The report generators\<close>

subsection \<open>generateCSV\<close>

text \<open>
  A record of the generic export is an object parsed from JSON: its members in the order
  of \<^verbatim>\<open>Object.keys\<close>, each value null, a truth value, a number or a text. The type of
  the numbers and their decimal text are parameters, since the export prints integers
  and fractions alike. \<open>join_text\<close> is the text that \<^verbatim>\<open>join\<close> takes for an element:
  empty for null, else the value as text.
\<close>

datatype 'n jsval = JNull | JBool bool | JNum 'n | JStr string

fun join_text :: "('n \<Rightarrow> string) \<Rightarrow> 'n jsval \<Rightarrow> string" where
  "join_text num_text JNull = []"
| "join_text num_text (JBool b) = show_bool b"
| "join_text num_text (JNum n) = num_text n"
| "join_text num_text (JStr v) = v"

definition object_keys :: "(string \<times> 'n jsval) list \<Rightarrow> string list" where
  "object_keys item = map fst item"

definition object_values :: "(string \<times> 'n jsval) list \<Rightarrow> 'n jsval list" where
  "object_values item = map snd item"

text \<open>The argument is \<open>None\<close> when \<^verbatim>\<open>data\<close> is null or undefined.\<close>

definition generateCSV :: "('n \<Rightarrow> string) \<Rightarrow> (string \<times> 'n jsval) list list option \<Rightarrow> string" where
  "generateCSV num_text data =
     (case data of
        None \<Rightarrow> []
      | Some [] \<Rightarrow> []
      | Some (first # rest) \<Rightarrow>
          let headers = join '','' (object_keys first);
              rows = join [newline]
                (map (\<lambda>item. join '','' (map (join_text num_text) (object_values item)))
                  (first # rest))
          in headers @ [newline] @ rows)"

text \<open>
  The export as the specification words it: one header line, the names of the fields of
  the first record joined by commas, then one line for each record, the values of its
  fields joined by commas; every line after the first starts on a new line.
\<close>

definition header_line :: "(string \<times> 'n jsval) list \<Rightarrow> string" where
  "header_line item = join '','' (map fst item)"

definition record_line :: "('n \<Rightarrow> string) \<Rightarrow> (string \<times> 'n jsval) list \<Rightarrow> string" where
  "record_line num_text item = join '','' (map (\<lambda>(k, v). join_text num_text v) item)"

definition emit_lines :: "string list \<Rightarrow> string" where
  "emit_lines ls = (case ls of [] \<Rightarrow> [] | l # rest \<Rightarrow> l @ concat (map (\<lambda>m. newline # m) rest))"

definition delimited_text_spec :: "('n \<Rightarrow> string) \<Rightarrow> (string \<times> 'n jsval) list list \<Rightarrow> string" where
  "delimited_text_spec num_text items =
     emit_lines (header_line (hd items) # map (record_line num_text) items)"

subsection \<open>generateEventosCSV\<close>

definition eventos_csv_header :: string where
  "eventos_csv_header = ''ID,Tipo,Severidad,Descripcion,Timestamp,Camara,Resuelto''"

definition quoted :: "string \<Rightarrow> string" where
  "quoted v = dquote # v @ [dquote]"

definition eventos_csv_row :: "event \<Rightarrow> string" where
  "eventos_csv_row e =
     show_int (id_ev e) @ '','' @ quoted (tipo e) @ '','' @ quoted (severidad e) @ '','' @
     quoted (descripcion e) @ '','' @ quoted (timestamp e) @ '','' @ quoted (camara_nombre e) @
     '','' @ show_bool (resuelto e)"

definition generateEventosCSV :: "event list \<Rightarrow> string" where
  "generateEventosCSV data =
     (let headers = eventos_csv_header @ [newline];
          rows = join [newline] (map eventos_csv_row data)
      in headers @ rows)"

subsection \<open>generatePDFContent\<close>

text \<open>
  JavaScript numbers are binary64 doubles, and a double is modelled by its exact value.
  \<open>to_double x\<close> is the double nearest to \<open>x\<close>, the one with the even significand of
  two: the significand has 53 bits, or fewer at the smallest exponent \<open>-1074\<close>. Values
  beyond the largest double are not modelled; the numbers here are confidences and
  their products with 100. \<open>double_mul\<close> is the product of two doubles, the exact product
  rounded.
\<close>

definition pow2 :: "int \<Rightarrow> rat" where
  "pow2 e = (if 0 \<le> e then 2 ^ nat e else 1 / 2 ^ nat (- e))"

definition float_exp :: "rat \<Rightarrow> int" where
  "float_exp a =
     (let (p, q) = quotient_of a;
          e0 = bitlen p - bitlen q - 53;
          e = (if a / pow2 e0 < 2 ^ 53 then e0 else e0 + 1)
      in max e (- 1074))"

definition round_half_even :: "rat \<Rightarrow> int" where
  "round_half_even y =
     (let f = \<lfloor>y\<rfloor>; r = y - of_int f
      in if r < 1 / 2 then f else if 1 / 2 < r then f + 1 else if even f then f else f + 1)"

definition to_double :: "rat \<Rightarrow> rat" where
  "to_double x =
     (if x = 0 then 0
      else let a = \<bar>x\<bar>; e = float_exp a; m = round_half_even (a / pow2 e)
           in sgn x * of_int m * pow2 e)"

definition double_mul :: "rat \<Rightarrow> rat \<Rightarrow> rat" where
  "double_mul a b = to_double (a * b)"

text \<open>
  \<^verbatim>\<open>x.toFixed(1)\<close> for a double \<open>x\<close> below \<open>10\<^sup>2\<^sup>1\<close>: the sign, then the integer \<open>n\<close>
  for which \<open>n / 10\<close> is nearest to the absolute value of \<open>x\<close> (the larger one of two),
  printed with one digit after the point.
\<close>

definition toFixed1 :: "rat \<Rightarrow> string" where
  "toFixed1 x =
     (let n = nat \<lfloor>\<bar>x\<bar> * 10 + 1 / 2\<rfloor>
      in (if x < 0 then ''-'' else []) @ show_nat (n div 10) @ ''.'' @ show_nat (n mod 10))"

text \<open>The rule is the box-drawing character U+2500, 70 times.\<close>

definition rule_line :: string where
  "rule_line = concat (replicate 70 [CHR 0xE2, CHR 0x94, CHR 0x80])"

definition report_head :: "string \<Rightarrow> nat \<Rightarrow> string" where
  "report_head now n =
     ''=== REPORTE DE DETECCIONES ==='' @ [newline, newline] @
     ''Generado: '' @ now @ [newline] @
     ''Total de detecciones: '' @ show_nat n @ [newline, newline] @
     rule_line @ [newline, newline]"

definition detection_block :: "nat \<Rightarrow> detection \<Rightarrow> string" where
  "detection_block idx det =
     show_nat (idx + 1) @ ''. '' @ nombre det @ '' '' @
       (case apellido det of None \<Rightarrow> [] | Some a \<Rightarrow> a) @ [newline] @
     ''   Fecha: '' @ timestamp_det det @ [newline] @
     ''   Estado: '' @ (if es_desconocido det then ''DESCONOCIDO'' else ''CONOCIDO'') @ [newline] @
     ''   Confianza: '' @ toFixed1 (double_mul (confianza det) 100) @ ''%'' @ [newline] @
     [newline]"

text \<open>
  \<open>now\<close> is the text of \<^verbatim>\<open>new Date().toLocaleString('es-MX')\<close> at the time of the call.
\<close>

definition generatePDFContent :: "string \<Rightarrow> detection list \<Rightarrow> string" where
  "generatePDFContent now data =
     foldl (\<lambda>content (idx, det). content @ detection_block idx det)
       (report_head now (length data)) (enumerate 0 data)"

subsection \<open>A reader for the events export\<close>

text \<open>
  The program only writes the export. To state what reading it back gives, this is a
  reader for the convention of \<^verbatim>\<open>generateEventosCSV\<close>: the header line, then rows
  separated by line feeds; a row is the decimal identifier, five texts, each between
  double quotes and ending at the next double quote, and \<^verbatim>\<open>true\<close> or \<^verbatim>\<open>false\<close>,
  with commas in between. A quoted text may hold commas and line feeds.
\<close>

definition digit_val :: "char \<Rightarrow> nat option" where
  "digit_val c = (if c \<in> set ''0123456789'' then Some (of_char c - 48) else None)"

fun parse_digits :: "nat \<Rightarrow> string \<Rightarrow> nat option" where
  "parse_digits acc [] = Some acc"
| "parse_digits acc (c # cs) =
     (case digit_val c of None \<Rightarrow> None | Some d \<Rightarrow> parse_digits (10 * acc + d) cs)"

definition parse_nat :: "string \<Rightarrow> nat option" where
  "parse_nat s = (if s = [] then None else parse_digits 0 s)"

definition parse_int :: "string \<Rightarrow> int option" where
  "parse_int s =
     (case s of
        [] \<Rightarrow> None
      | c # cs \<Rightarrow> if c = CHR ''-'' then map_option (\<lambda>n. - int n) (parse_nat cs)
                  else map_option int (parse_nat s))"

definition expect :: "char \<Rightarrow> string \<Rightarrow> string option" where
  "expect c s = (case s of [] \<Rightarrow> None | x # r \<Rightarrow> if x = c then Some r else None)"

definition parse_quoted :: "string \<Rightarrow> (string \<times> string) option" where
  "parse_quoted s =
     (case expect dquote s of
        None \<Rightarrow> None
      | Some r \<Rightarrow>
          (case expect dquote (dropWhile (\<lambda>c. c \<noteq> dquote) r) of
             None \<Rightarrow> None
           | Some r' \<Rightarrow> Some (takeWhile (\<lambda>c. c \<noteq> dquote) r, r')))"

text \<open>A quoted text and the comma after it.\<close>

definition parse_field :: "string \<Rightarrow> (string \<times> string) option" where
  "parse_field s =
     (case parse_quoted s of
        None \<Rightarrow> None
      | Some (v, r) \<Rightarrow> map_option (Pair v) (expect CHR '','' r))"

definition parse_bool :: "string \<Rightarrow> (bool \<times> string) option" where
  "parse_bool s =
     (if take 4 s = ''true'' then Some (True, drop 4 s)
      else if take 5 s = ''false'' then Some (False, drop 5 s)
      else None)"

definition parse_row :: "string \<Rightarrow> (event \<times> string) option" where
  "parse_row s =
     (case parse_int (takeWhile (\<lambda>c. c \<noteq> CHR '','') s) of None \<Rightarrow> None | Some i \<Rightarrow>
      case expect CHR '','' (dropWhile (\<lambda>c. c \<noteq> CHR '','') s) of None \<Rightarrow> None | Some r0 \<Rightarrow>
      case parse_field r0 of None \<Rightarrow> None | Some (t, r1) \<Rightarrow>
      case parse_field r1 of None \<Rightarrow> None | Some (sev, r2) \<Rightarrow>
      case parse_field r2 of None \<Rightarrow> None | Some (d, r3) \<Rightarrow>
      case parse_field r3 of None \<Rightarrow> None | Some (ts, r4) \<Rightarrow>
      case parse_field r4 of None \<Rightarrow> None | Some (cam, r5) \<Rightarrow>
      case parse_bool r5 of None \<Rightarrow> None | Some (b, r6) \<Rightarrow>
        Some (\<lparr> id_ev = i, tipo = t, severidad = sev, descripcion = d, timestamp = ts,
                camara_nombre = cam, resuelto = b \<rparr>, r6))"

text \<open>
  The rows: \<open>fuel\<close> bounds the number of rows read. The reader starts with the length of
  the text, and every row of an export takes at least one character of it.
\<close>

fun parse_rows :: "nat \<Rightarrow> string \<Rightarrow> event list option" where
  "parse_rows 0 s = None"
| "parse_rows (Suc fuel) s =
     (case parse_row s of
        None \<Rightarrow> None
      | Some (e, r) \<Rightarrow>
          (case r of
             [] \<Rightarrow> Some [e]
           | c # r' \<Rightarrow> if c = newline then map_option ((#) e) (parse_rows fuel r') else None))"

definition parse_eventos_csv :: "string \<Rightarrow> event list option" where
  "parse_eventos_csv text =
     (let h = eventos_csv_header @ [newline]
      in if take (length h) text = h
         then (let body = drop (length h) text
               in if body = [] then Some [] else parse_rows (length body) body)
         else None)"

definition no_dquote :: "event \<Rightarrow> bool" where
  "no_dquote e \<longleftrightarrow>
     dquote \<notin> set (tipo e) \<and> dquote \<notin> set (severidad e) \<and> dquote \<notin> set (descripcion e)
     \<and> dquote \<notin> set (timestamp e) \<and> dquote \<notin> set (camara_nombre e)"

text \<open>Two events that differ in their type and severity, with a double quote inside.\<close>

definition quote_event_1 :: event where
  \<open>quote_event_1 = \<lparr> id_ev = 1, tipo = ''a","b'', severidad = ''c'', descripcion = ''d'',
     timestamp = ''t'', camara_nombre = ''k'', resuelto = False \<rparr>\<close>

definition quote_event_2 :: event where
  \<open>quote_event_2 = \<lparr> id_ev = 1, tipo = ''a'', severidad = ''b","c'', descripcion = ''d'',
     timestamp = ''t'', camara_nombre = ''k'', resuelto = False \<rparr>\<close>

section \<open>The seen-event tracker: properties\<close>

lemma array_includes_iff: "array_includes xs x \<longleftrightarrow> x \<in> set xs"
  by (induction xs) auto

lemma isNew_iff: "isNew x ns \<longleftrightarrow> x \<notin> set ns"
  by (simp add: isNew_def array_includes_iff)

lemma set_foldl_tracker_step:
  "set (foldl tracker_step ns ops) = set ns \<union> {x. MarkSeen x \<in> set ops}"
proof (induction ops arbitrary: ns)
  case Nil
  show ?case by simp
next
  case (Cons a ops)
  show ?case
    by (cases a) (auto simp: Cons.IH markSeen_def)
qed

section \<open>Polling the events: properties\<close>

lemma notifications_foldl_notify:
  "notifications (foldl notify_event s es) = notifications s @ map id_ev es"
  by (induction es arbitrary: s) (simp_all add: notify_event_def showNotification_def markSeen_def)


lemma notifications_checkNewEvents:
  "notifications (checkNewEvents (Reply True (Some evs)) s) =
     notifications s @ map id_ev (filter (\<lambda>e. id_ev e \<notin> set (notifications s)) evs)"
  by (simp add: checkNewEvents_def Let_def notifications_foldl_notify isNew_iff)








lemma checkNewEvents_all_seen:
  assumes "\<forall>e \<in> set evs. \<not> isNew (id_ev e) (notifications s)"
  shows "checkNewEvents (Reply True (Some evs)) s = s"
proof -
  have "filter (\<lambda>e. isNew (id_ev e) (notifications s)) evs = []"
    using assms by (simp add: filter_empty_conv)
  then show ?thesis by (simp add: checkNewEvents_def)
qed

lemma notifications_checkNewEvents_cases:
  "notifications (checkNewEvents r s) =
     (case r of Reply True (Some evs) \<Rightarrow>
        notifications s @ map id_ev (filter (\<lambda>e. id_ev e \<notin> set (notifications s)) evs)
      | _ \<Rightarrow> notifications s)"
  by (cases r) (auto simp: checkNewEvents_def console_error_def Let_def notifications_foldl_notify isNew_iff
      split: option.splits bool.splits)

lemma count_list_seen:
  assumes "\<not> isNew x (notifications s)"
  shows "count_list (notifications (checkNewEvents r s)) x = count_list (notifications s) x"
proof -
  have "x \<notin> set (map id_ev (filter (\<lambda>e. id_ev e \<notin> set (notifications s)) evs))" for evs
    using assms by (auto simp: isNew_iff)
  then have h: "count_list (map id_ev (filter (\<lambda>e. id_ev e \<notin> set (notifications s)) evs)) x = 0" for evs
    by (simp only: count_list_0_iff)
  show ?thesis
    by (auto simp: notifications_checkNewEvents_cases h split: fetched.splits option.splits bool.splits)
qed

lemma distinct_checkNewEvents:
  assumes "distinct (notifications s)" and "well_formed_reply r"
  shows "distinct (notifications (checkNewEvents r s))"
  using assms
  by (cases r rule: well_formed_reply.cases)
     (auto simp: notifications_checkNewEvents_cases distinct_map_filter split: bool.splits)

lemma distinct_foldl_checkNewEvents:
  "distinct (notifications s) \<Longrightarrow> list_all well_formed_reply rs \<Longrightarrow>
     distinct (notifications (foldl (\<lambda>s r. checkNewEvents r s) s rs))"
  by (induction rs arbitrary: s) (simp_all add: distinct_checkNewEvents)

lemma set_notifications_step:
  "set (notifications (checkNewEvents r s)) = set (notifications s) \<union> set (fetched_ids r)"
  by (cases r rule: fetched_ids.cases)
     (auto simp: notifications_checkNewEvents_cases split: bool.splits)

lemma set_notifications_session:
  "set (notifications (foldl (\<lambda>s r. checkNewEvents r s) s rs))
     = set (notifications s) \<union> set (concat (map fetched_ids rs))"
  by (induction rs arbitrary: s) (auto simp: set_notifications_step)

lemma count_poll_session:
  assumes "list_all well_formed_reply rs"
  shows "count (notifications (poll_session rs)) = card (set (concat (map fetched_ids rs)))"
proof -
  have "distinct (notifications (poll_session rs))"
    using distinct_foldl_checkNewEvents [of init_page rs] assms
    by (simp add: poll_session_def init_page_def)
  then have "card (set (notifications (poll_session rs))) = length (notifications (poll_session rs))"
    by (rule distinct_card)
  moreover have "set (notifications (poll_session rs)) = set (concat (map fetched_ids rs))"
    by (simp add: poll_session_def set_notifications_session init_page_def)
  ultimately show ?thesis
    by (simp add: count_def)
qed

text \<open>
  Claim C2. The program marks an identifier as seen by the push of line 47, which it
  reaches only for the events that passed the filter of line 38. An identifier that is
  in the array when a poll starts is therefore not pushed by that poll, whatever the
  reply: it occurs in the array as often as before. A poll whose events are all in the
  array already leaves the whole page as it is, the length of the array and the counter
  on the page included. An event has one identifier, the primary key of its table, so a
  fetched list holds no identifier twice; in a session of such replies from the newly
  loaded page every identifier is in the array at most once, and the length of the array
  is the number of distinct identifiers fetched.
\<close>

theorem seen_id_not_pushed_again:
  "(\<not> isNew x (notifications s) \<longrightarrow>
      count_list (notifications (checkNewEvents r s)) x = count_list (notifications s) x)
   \<and> ((\<forall>e \<in> set evs. \<not> isNew (id_ev e) (notifications s)) \<longrightarrow>
        checkNewEvents (Reply True (Some evs)) s = s)
   \<and> (list_all well_formed_reply rs \<longrightarrow> distinct (notifications (poll_session rs)))
   \<and> (list_all well_formed_reply rs \<longrightarrow>
        count (notifications (poll_session rs)) = card (set (concat (map fetched_ids rs))))"
  using count_list_seen checkNewEvents_all_seen distinct_foldl_checkNewEvents [of init_page rs]
    count_poll_session [of rs]
  by (simp add: poll_session_def init_page_def)

theorem seen_id_not_pushed_again_witness:
  "\<not> isNew 1 (notifications (checkNewEvents (Reply True (Some [example_event 1])) init_page))
   \<and> count_list (notifications (checkNewEvents (Reply True (Some [example_event 1, example_event 2]))
         (checkNewEvents (Reply True (Some [example_event 1])) init_page))) 1 = 1
   \<and> checkNewEvents (Reply True (Some [example_event 1]))
         (checkNewEvents (Reply True (Some [example_event 1])) init_page)
       = checkNewEvents (Reply True (Some [example_event 1])) init_page
   \<and> list_all well_formed_reply [Reply True (Some [example_event 1]), NetworkError,
         Reply True (Some [example_event 1, example_event 2])]
   \<and> distinct (notifications (poll_session [Reply True (Some [example_event 1]), NetworkError,
         Reply True (Some [example_event 1, example_event 2])]))
   \<and> count (notifications (poll_session [Reply True (Some [example_event 1]), NetworkError,
         Reply True (Some [example_event 1, example_event 2])])) = 2"
  using seen_id_not_pushed_again [of 1 "checkNewEvents (Reply True (Some [example_event 1])) init_page"
      "Reply True (Some [example_event 1, example_event 2])" "[example_event 1]"
      "[Reply True (Some [example_event 1]), NetworkError,
        Reply True (Some [example_event 1, example_event 2])]"]
  by (simp add: notifications_checkNewEvents isNew_iff init_page_def example_event_def)

section \<open>The tracker in a session\<close>

text \<open>
  Claim C9. In a session that starts with the empty array, \<open>isNew x\<close> holds as long as
  \<open>markSeen x\<close> has not been called, and fails for the rest of the session once it has
  been called, however often and whatever else was marked or asked in between. Asking
  \<open>isNew\<close> leaves the array as it is: the session ends in the same array as the session
  with the questions left out. For the polls of the program this reads: after any sequence
  of polls from the newly loaded page, \<open>isNew x\<close> holds exactly when no successful reply
  so far held an event with the identifier \<open>x\<close>.
\<close>

theorem isNew_markSeen_session:
  "isNew x (tracker_run ops) = (MarkSeen x \<notin> set ops)
   \<and> tracker_step ns (IsNew y) = ns
   \<and> tracker_run ops = tracker_run (filter is_markSeen ops)
   \<and> isNew x (notifications (poll_session rs)) = (x \<notin> set (concat (map fetched_ids rs)))"
proof -
  have a: "isNew x (tracker_run ops) = (MarkSeen x \<notin> set ops)"
    by (simp add: isNew_iff tracker_run_def set_foldl_tracker_step)
  have "foldl tracker_step ms ops = foldl tracker_step ms (filter is_markSeen ops)"
    for ms
  proof (induction ops arbitrary: ms)
    case Nil
    show ?case by simp
  next
    case (Cons a ops)
    show ?case by (cases a) (simp_all add: Cons.IH)
  qed
  then have c: "tracker_run ops = tracker_run (filter is_markSeen ops)"
    by (simp add: tracker_run_def)
  have "isNew x (notifications (poll_session rs)) = (x \<notin> set (concat (map fetched_ids rs)))"
    by (simp add: isNew_iff poll_session_def set_notifications_session init_page_def)
  with a c show ?thesis by simp
qed

theorem isNew_markSeen_session_witness:
  "isNew 7 (tracker_run []) \<and> isNew 7 (tracker_run [MarkSeen 3, IsNew 7])
   \<and> \<not> isNew 7 (tracker_run [MarkSeen 7, MarkSeen 3, MarkSeen 7, IsNew 7, MarkSeen 5])
   \<and> isNew 2 (notifications (poll_session [Reply True (Some [example_event 1]), NetworkError]))
   \<and> \<not> isNew 1 (notifications (poll_session [Reply True (Some [example_event 1]), NetworkError]))"
  using isNew_markSeen_session [of 7 "[]", THEN conjunct1]
    isNew_markSeen_session [of 7 "[MarkSeen 3, IsNew 7]", THEN conjunct1]
    isNew_markSeen_session [of 7 "[MarkSeen 7, MarkSeen 3, MarkSeen 7, IsNew 7, MarkSeen 5]",
      THEN conjunct1]
    isNew_markSeen_session [where x = 2 and rs = "[Reply True (Some [example_event 1]), NetworkError]",
      THEN conjunct2, THEN conjunct2, THEN conjunct2]
    isNew_markSeen_session [where x = 1 and rs = "[Reply True (Some [example_event 1]), NetworkError]",
      THEN conjunct2, THEN conjunct2, THEN conjunct2]
  by (simp add: example_event_def)

section \<open>The toast: properties\<close>

lemma present_twice_fields:
  "toast_className (present_twice a d b s) = [''toast'', snd (snd b), ''active'']"
  "toastTitle (present_twice a d b s) = fst b"
  "toastMessage (present_twice a d b s) = fst (snd b)"
  "clock (present_twice a d b s) = clock s + d"
  by (cases a; cases b; simp add: present_twice_def showNotification_def advance_def Let_def dismiss_def)+

lemma timeouts_present_twice:
  assumes "timeouts s = []" and "d < display_ms"
  shows "timeouts (present_twice a d b s) = [clock s + display_ms, clock s + d + display_ms]"
  using assms
  by (cases a; cases b) (simp add: present_twice_def showNotification_def advance_def Let_def dismiss_def)

lemma advance_content:
  "toastTitle (advance d s) = toastTitle s" "toastMessage (advance d s) = toastMessage s"
  by (simp_all add: advance_def Let_def dismiss_def)

lemma visible_advance:
  "visible (advance d s) \<longleftrightarrow> visible s \<and> (\<forall>k \<in> set (timeouts s). clock s + d < k)"
proof (cases "filter (\<lambda>k. k \<le> clock s + d) (timeouts s) = []")
  case True
  then have "\<forall>k \<in> set (timeouts s). clock s + d < k"
    by (auto simp: filter_empty_conv)
  with True show ?thesis
    by (simp add: advance_def Let_def visible_def)
next
  case False
  then have "\<exists>k \<in> set (timeouts s). \<not> clock s + d < k"
    by (simp add: filter_empty_conv not_less)
  with False show ?thesis
    by (auto simp: advance_def Let_def visible_def dismiss_def array_includes_iff)
qed

text \<open>
  \<open>A\<close> is presented at time 0 and \<open>B\<close> at 3000 ms. At 5000 ms, only 2000 ms after
  \<open>B\<close> was presented, the callback queued for \<open>A\<close> has removed the token
  \<^verbatim>\<open>active\<close>: the toast holds the text of \<open>B\<close> and is off screen.
\<close>

theorem early_dismiss_counterexample:
  "toastTitle (advance 2000 (present_twice (''A'', ''first'', ''success'') 3000
       (''B'', ''second'', ''success'') init_page)) = ''B''
   \<and> \<not> visible (advance 2000 (present_twice (''A'', ''first'', ''success'') 3000
       (''B'', ''second'', ''success'') init_page))"
  by (simp add: visible_advance advance_content present_twice_fields timeouts_present_twice
      init_page_def display_ms_def)

text \<open>
  Claim C3, amended. Let no callback be pending, let \<open>A\<close> be presented and \<open>B\<close> be
  presented \<open>d1\<close> milliseconds later, before the 5 seconds of \<open>A\<close> are over. From then
  on the toast holds the title and the message of \<open>B\<close>, and it is on screen with the kind
  of \<open>B\<close> right after the call. Two callbacks are pending: the one of \<open>A\<close>, due 5
  seconds after \<open>A\<close> was presented, and the one of \<open>B\<close>, due 5 seconds after \<open>B\<close>
  was presented; no call cancels a callback. The toast is on screen \<open>d2\<close> milliseconds
  after \<open>B\<close> was presented exactly when \<open>d1 + d2\<close> is below 5 seconds: it leaves the
  screen 5 seconds after \<open>A\<close> was presented, when the first callback runs.
\<close>

theorem present_twice_dismissed_by_first_timer:
  "timeouts s = [] \<and> d1 < display_ms \<longrightarrow>
     toastTitle (advance d2 (present_twice a d1 b s)) = fst b
   \<and> toastMessage (advance d2 (present_twice a d1 b s)) = fst (snd b)
   \<and> toast_className (present_twice a d1 b s) = [''toast'', snd (snd b), ''active'']
   \<and> timeouts (present_twice a d1 b s) = [clock s + display_ms, clock s + d1 + display_ms]
   \<and> (visible (advance d2 (present_twice a d1 b s)) \<longleftrightarrow> d1 + d2 < display_ms)"
proof (intro impI, elim conjE)
  assume a: "timeouts s = []" "d1 < display_ms"
  have "visible (present_twice a d1 b s)"
    by (simp add: visible_def present_twice_fields)
  then have "visible (advance d2 (present_twice a d1 b s)) \<longleftrightarrow> d1 + d2 < display_ms"
    using a by (auto simp: visible_advance timeouts_present_twice present_twice_fields)
  then show "toastTitle (advance d2 (present_twice a d1 b s)) = fst b
   \<and> toastMessage (advance d2 (present_twice a d1 b s)) = fst (snd b)
   \<and> toast_className (present_twice a d1 b s) = [''toast'', snd (snd b), ''active'']
   \<and> timeouts (present_twice a d1 b s) = [clock s + display_ms, clock s + d1 + display_ms]
   \<and> (visible (advance d2 (present_twice a d1 b s)) \<longleftrightarrow> d1 + d2 < display_ms)"
    using a by (simp add: advance_content present_twice_fields timeouts_present_twice)
qed

theorem present_twice_dismissed_by_first_timer_witness:
  "timeouts init_page = [] \<and> 3000 < display_ms
   \<and> toastTitle (advance 1999 (present_twice (''A'', ''first'', ''success'') 3000
       (''B'', ''second'', ''error'') init_page)) = ''B''
   \<and> visible (advance 1999 (present_twice (''A'', ''first'', ''success'') 3000
       (''B'', ''second'', ''error'') init_page))
   \<and> \<not> visible (advance 2000 (present_twice (''A'', ''first'', ''success'') 3000
       (''B'', ''second'', ''error'') init_page))
   \<and> timeouts (present_twice (''A'', ''first'', ''success'') 3000
       (''B'', ''second'', ''error'') init_page) = [5000, 8000]"
  using present_twice_dismissed_by_first_timer [of init_page 3000 1999 "(''A'', ''first'', ''success'')"
      "(''B'', ''second'', ''error'')"]
    present_twice_dismissed_by_first_timer [of init_page 3000 2000 "(''A'', ''first'', ''success'')"
      "(''B'', ''second'', ''error'')"]
  by (simp add: init_page_def display_ms_def)

section \<open>Failed fetches: properties\<close>

lemma checkNewEvents_thrown:
  "thrown r \<Longrightarrow> checkNewEvents r s = console_error ''Error verificando eventos:'' s"
  by (cases r) (auto simp: checkNewEvents_def)

lemma loadStats_thrown: "thrown r \<Longrightarrow> loadStats r s = console_error stats_error s"
  by (cases r) (auto simp: loadStats_def)

lemma loadDetecciones_thrown:
  "thrown r \<Longrightarrow> loadDetecciones h r s = console_error ''Error cargando detecciones:'' s"
  by (cases r) (auto simp: loadDetecciones_def)

lemma checkNewEvents_unsuccessful: "unsuccessful r \<Longrightarrow> checkNewEvents r s = s"
  by (cases r) (auto simp: checkNewEvents_def)

lemma loadStats_unsuccessful: "unsuccessful r \<Longrightarrow> loadStats r s = s"
  by (cases r) (auto simp: loadStats_def)

lemma loadDetecciones_unsuccessful:
  "unsuccessful r \<Longrightarrow> loadDetecciones h r s = s\<lparr>deteccionesList := no_detecciones_html\<rparr>"
  by (cases r) (auto simp: loadDetecciones_def)

text \<open>
  A reply with \<^verbatim>\<open>success: false\<close> takes no \<^verbatim>\<open>catch\<close>: none of the three loaders
  logs it, and \<^verbatim>\<open>loadDetecciones\<close> replaces the list on the page by its placeholder.
\<close>

theorem unsuccessful_reply_counterexample:
  "unsuccessful (Reply False None :: event list fetched)
   \<and> console (checkNewEvents (Reply False None) init_page) = console init_page
   \<and> console (loadStats (Reply False None) init_page) = console init_page
   \<and> console (loadDetecciones nombre (Reply False None) init_page) = console init_page
   \<and> deteccionesList (loadDetecciones nombre (Reply False None) init_page) \<noteq> deteccionesList init_page"
  by (simp add: checkNewEvents_def loadStats_def loadDetecciones_def init_page_def no_detecciones_html_def)

lemma notify_event_console:
  "notify_event (s\<lparr>console := c\<rparr>) e = (notify_event s e)\<lparr>console := c\<rparr>"
  by (simp add: notify_event_def showNotification_def)

lemma foldl_notify_console:
  "foldl notify_event (s\<lparr>console := c\<rparr>) es = (foldl notify_event s es)\<lparr>console := c\<rparr>"
  by (induction es arbitrary: s) (simp_all add: notify_event_console)

lemma checkNewEvents_console:
  "erase_console (checkNewEvents r (s\<lparr>console := c\<rparr>)) = erase_console (checkNewEvents r s)"
  by (cases r)
     (auto simp: checkNewEvents_def erase_console_def console_error_def Let_def foldl_notify_console
       split: option.splits)

lemma loadStats_console:
  "erase_console (loadStats r (s\<lparr>console := c\<rparr>)) = erase_console (loadStats r s)"
  by (cases r) (auto simp: loadStats_def erase_console_def console_error_def split: option.splits)

lemma loadDetecciones_console:
  "erase_console (loadDetecciones h r (s\<lparr>console := c\<rparr>)) = erase_console (loadDetecciones h r s)"
  by (cases r) (auto simp: loadDetecciones_def erase_console_def console_error_def split: option.splits)

lemma handle_console:
  "erase_console (handle h a (s\<lparr>console := c\<rparr>)) = erase_console (handle h a s)"
  by (cases a) (simp_all add: checkNewEvents_console loadStats_console loadDetecciones_console)

lemma concat_replicate_snoc: "concat (replicate n xs) @ xs = concat (replicate (Suc n) xs)"
  by (induction n) simp_all

lemma funpow_interval_callback:
  "(interval_callback ^^ n) s =
     s\<lparr>in_flight := in_flight s @ concat (replicate n [StatsRequest, DeteccionesRequest, EventosRequest])\<rparr>"
proof (induction n)
  case 0
  show ?case by simp
next
  case (Suc n)
  have "(interval_callback ^^ Suc n) s = interval_callback ((interval_callback ^^ n) s)"
    by simp
  also have "\<dots> = interval_callback (s\<lparr>in_flight := in_flight s
      @ concat (replicate n [StatsRequest, DeteccionesRequest, EventosRequest])\<rparr>)"
    by (simp only: Suc)
  also have "\<dots> = s\<lparr>in_flight := in_flight s
      @ concat (replicate (Suc n) [StatsRequest, DeteccionesRequest, EventosRequest])\<rparr>"
    using concat_replicate_snoc [of n "[StatsRequest, DeteccionesRequest, EventosRequest]"]
    by (simp add: interval_callback_def)
  finally show ?case .
qed

lemma elapse_console:
  "elapse d (s\<lparr>console := c\<rparr>) = (elapse d s)\<lparr>console := c\<rparr>"
  by (simp add: elapse_def advance_def dismiss_def Let_def funpow_interval_callback split: option.splits)

lemma loop_step_console:
  "map_option erase_console (loop_step h e (s\<lparr>console := c\<rparr>))
     = map_option erase_console (loop_step h e s)"
proof (cases e)
  case (Elapse d)
  then show ?thesis by (simp add: elapse_console erase_console_def)
next
  case (Arrive a)
  have swap: "s\<lparr>console := c, in_flight := xs\<rparr> = s\<lparr>in_flight := xs, console := c\<rparr>" for xs
    by (cases s) simp
  have "erase_console (handle h a (s\<lparr>console := c, in_flight := xs\<rparr>))
      = erase_console (handle h a (s\<lparr>in_flight := xs\<rparr>))" for xs
    unfolding swap by (rule handle_console)
  with Arrive show ?thesis by simp
qed

lemma loop_run_console:
  "map_option erase_console (loop_run h es (s\<lparr>console := c\<rparr>))
     = map_option erase_console (loop_run h es s)"
proof (induction es arbitrary: s c)
  case Nil
  show ?case by (simp add: erase_console_def)
next
  case (Cons e es)
  show ?case
  proof (cases "loop_step h e s")
    case None
    with loop_step_console [where h = h and e = e and s = s and c = c] show ?thesis by simp
  next
    case (Some s1)
    with loop_step_console [where h = h and e = e and s = s and c = c] obtain s1' where
      s1': "loop_step h e (s\<lparr>console := c\<rparr>) = Some s1'" and eq: "erase_console s1' = erase_console s1"
      by (cases "loop_step h e (s\<lparr>console := c\<rparr>)") auto
    from eq have "s1' = s1\<lparr>console := console s1'\<rparr>"
      by (cases s1, cases s1') (simp add: erase_console_def)
    then have "map_option erase_console (loop_run h es s1') = map_option erase_console (loop_run h es s1)"
      using Cons.IH [where s = s1 and c = "console s1'"] by simp
    with Some s1' show ?thesis by simp
  qed
qed


lemma handle_thrown: "reply_thrown a \<Longrightarrow> handle h a s = console_error (error_message a) s"
  by (cases a) (simp_all add: checkNewEvents_thrown loadStats_thrown loadDetecciones_thrown)

lemma handle_unsuccessful:
  "reply_unsuccessful a \<Longrightarrow>
     handle h a s = (if request_of a = DeteccionesRequest
                     then s\<lparr>deteccionesList := no_detecciones_html\<rparr> else s)"
  by (cases a)
     (simp_all add: checkNewEvents_unsuccessful loadStats_unsuccessful loadDetecciones_unsuccessful)

lemma handle_failed_keeps:
  assumes "reply_thrown a \<or> reply_unsuccessful a"
  shows "notifications (handle h a s) = notifications s \<and> shown (handle h a s) = shown s
     \<and> timeouts (handle h a s) = timeouts s \<and> toast_className (handle h a s) = toast_className s"
  using assms handle_thrown [of a h s] handle_unsuccessful [of a h s]
  by (auto simp: console_error_def)

lemma step_thrown:
  assumes "reply_thrown a" and "array_includes (in_flight s) (request_of a)"
  shows "loop_step h (Arrive a) s = Some (console_error (error_message a) (settled a s))"
  using assms by (simp add: handle_thrown settled_def)

lemma run_after_thrown:
  assumes "reply_thrown a" and "array_includes (in_flight s) (request_of a)"
  shows "map_option erase_console (loop_run h (Arrive a # es) s)
     = map_option erase_console (loop_run h es (settled a s))"
proof -
  have "loop_run h (Arrive a # es) s = loop_run h es ((settled a s)\<lparr>console := console s @ [error_message a]\<rparr>)"
    using assms by (simp add: handle_thrown settled_def console_error_def)
  then show ?thesis
    by (simp only: loop_run_console)
qed

lemma run_after_unsuccessful:
  assumes "reply_unsuccessful a" and "array_includes (in_flight s) (request_of a)"
  shows "loop_run h (Arrive a # es) s =
     loop_run h es (if request_of a = DeteccionesRequest
                    then (settled a s)\<lparr>deteccionesList := no_detecciones_html\<rparr>
                    else settled a s)"
  using assms by (simp add: handle_unsuccessful settled_def)

lemma console_foldl_notify: "console (foldl notify_event s es) = console s"
  by (induction es arbitrary: s) (simp_all add: notify_event_def showNotification_def)

lemma console_handle:
  "console (handle h a s) = console s @ (if reply_thrown a then [error_message a] else [])"
proof (cases "reply_thrown a")
  case True
  then show ?thesis by (simp add: handle_thrown console_error_def)
next
  case False
  then show ?thesis
    by (cases a)
       (auto simp: checkNewEvents_def loadStats_def loadDetecciones_def Let_def console_foldl_notify
         split: fetched.splits option.splits)
qed

lemma console_elapse: "console (elapse d s) = console s"
  by (simp add: elapse_def advance_def dismiss_def Let_def funpow_interval_callback split: option.splits)

lemma console_step:
  "loop_step h e s = Some t \<Longrightarrow>
     console t = console s @ map error_message (filter reply_thrown (arrivals [e]))"
  by (cases e) (auto simp: console_elapse console_handle split: if_splits)

lemma arrivals_Cons: "arrivals (e # es) = arrivals [e] @ arrivals es"
  by (cases e) simp_all

lemma console_run:
  "loop_run h es s = Some t \<Longrightarrow>
     console t = console s @ map error_message (filter reply_thrown (arrivals es))"
proof (induction es arbitrary: s)
  case Nil
  then show ?case by simp
next
  case (Cons e es)
  from Cons.prems obtain s1 where s1: "loop_step h e s = Some s1" and r: "loop_run h es s1 = Some t"
    by (cases "loop_step h e s") auto
  from console_step [OF s1] Cons.IH [OF r] show ?case
    by (simp add: arrivals_Cons [of e es])
qed


lemma tick_arith_due:
  fixes P :: nat
  assumes "0 < P" and "c0 \<le> c" and "c0 + ((c - c0) div P + 1) * P \<le> c + d"
  shows "(c + d - c0) div P
     = (c - c0) div P + ((c + d - (c0 + ((c - c0) div P + 1) * P)) div P + 1)"
proof -
  let ?q = "(c - c0) div P"
  let ?due = "c0 + (?q + 1) * P"
  have "c + d - c0 = (c + d - ?due) + (?q + 1) * P"
    using assms by simp
  then have "(c + d - c0) div P = ((c + d - ?due) + (?q + 1) * P) div P"
    by simp
  also have "\<dots> = (?q + 1) + (c + d - ?due) div P"
    using assms(1) by (simp only: div_mult_self1 [OF less_imp_neq [OF assms(1), symmetric]])
  finally show ?thesis by simp
qed

lemma tick_arith_not_due:
  fixes P :: nat
  assumes "0 < P" and "c0 \<le> c" and "\<not> c0 + ((c - c0) div P + 1) * P \<le> c + d"
  shows "(c + d - c0) div P = (c - c0) div P"
proof (rule div_nat_eqI)
  have "P * ((c - c0) div P) \<le> c - c0"
    by simp
  then show "P * ((c - c0) div P) \<le> c + d - c0"
    using assms(2) by linarith
  show "c + d - c0 < P * Suc ((c - c0) div P)"
    using assms by (simp add: algebra_simps)
qed


lemma foldl_notify_loop_fields:
  "clock (foldl notify_event s es) = clock s"
  "in_flight (foldl notify_event s es) = in_flight s"
  "interval_due (foldl notify_event s es) = interval_due s"
  by (induction es arbitrary: s; simp add: notify_event_def showNotification_def)+

lemma handle_loop_fields:
  "clock (handle h a s) = clock s"
  "in_flight (handle h a s) = in_flight s"
  "interval_due (handle h a s) = interval_due s"
  by (cases a;
      auto simp: checkNewEvents_def loadStats_def loadDetecciones_def console_error_def Let_def
        foldl_notify_loop_fields split: fetched.splits option.splits)+

lemma advance_loop_fields:
  "clock (advance d s) = clock s + d"
  "in_flight (advance d s) = in_flight s"
  "interval_due (advance d s) = interval_due s"
  by (simp_all add: advance_def dismiss_def Let_def)

lemma poll_ms_pos: "0 < poll_ms"
  by (simp add: poll_ms_def)

lemma elapse_schedule:
  assumes "interval_set c0 s"
  shows "interval_set c0 (elapse d s)
     \<and> length (in_flight (elapse d s)) + 3 * ticks_since c0 s
         = length (in_flight s) + 3 * ticks_since c0 (elapse d s)"
proof (cases "c0 + (ticks_since c0 s + 1) * poll_ms \<le> clock s + d")
  case True
  let ?n = "(clock s + d - (c0 + (ticks_since c0 s + 1) * poll_ms)) div poll_ms + 1"
  from assms have c0: "c0 \<le> clock s"
    and due: "interval_due s = Some (c0 + (ticks_since c0 s + 1) * poll_ms)"
    by (simp_all add: interval_set_def)
  have el: "elapse d s = ((interval_callback ^^ ?n) (advance d s))
      \<lparr>interval_due := Some (c0 + (ticks_since c0 s + 1) * poll_ms + ?n * poll_ms)\<rparr>"
    using True by (simp add: elapse_def due advance_loop_fields Let_def)
  have q: "(clock s + d - c0) div poll_ms = ticks_since c0 s + ?n"
    using tick_arith_due [OF poll_ms_pos c0, of d] True by (simp add: ticks_since_def)
  have clk: "clock (elapse d s) = clock s + d"
    by (simp add: el funpow_interval_callback advance_loop_fields del: funpow.simps)
  have t: "ticks_since c0 (elapse d s) = ticks_since c0 s + ?n"
    using q by (simp add: ticks_since_def clk)
  have "interval_due (elapse d s) = Some (c0 + (ticks_since c0 (elapse d s) + 1) * poll_ms)"
    by (simp add: t) (simp add: el algebra_simps del: funpow.simps)
  moreover have "length (in_flight (elapse d s)) = length (in_flight s) + 3 * ?n"
    by (simp add: el funpow_interval_callback advance_loop_fields length_concat sum_list_replicate
        del: funpow.simps)
  ultimately show ?thesis
    using c0 t by (simp add: interval_set_def clk)
next
  case False
  from assms have c0: "c0 \<le> clock s"
    and due: "interval_due s = Some (c0 + (ticks_since c0 s + 1) * poll_ms)"
    by (simp_all add: interval_set_def)
  have el: "elapse d s = advance d s"
    using False by (simp add: elapse_def due advance_loop_fields Let_def)
  have t: "ticks_since c0 (elapse d s) = ticks_since c0 s"
    using tick_arith_not_due [OF poll_ms_pos c0, of d] False
    by (simp add: ticks_since_def el advance_loop_fields)
  show ?thesis
    using c0 due by (simp add: interval_set_def t) (simp add: el advance_loop_fields)
qed

lemma arrive_schedule:
  assumes "interval_set c0 s" and "loop_step h (Arrive a) s = Some t"
  shows "interval_set c0 t \<and> ticks_since c0 t = ticks_since c0 s
     \<and> length (in_flight t) + 1 = length (in_flight s)"
proof -
  from assms(2) have m: "request_of a \<in> set (in_flight s)"
    and t: "t = handle h a (s\<lparr>in_flight := remove1 (request_of a) (in_flight s)\<rparr>)"
    by (auto simp: array_includes_iff split: if_splits)
  from m have "length (in_flight s) > 0"
    by (cases "in_flight s") auto
  with m have "length (remove1 (request_of a) (in_flight s)) + 1 = length (in_flight s)"
    by (simp add: length_remove1)
  then show ?thesis
    using assms(1) by (simp add: t handle_loop_fields interval_set_def ticks_since_def)
qed

lemma run_schedule:
  assumes "loop_run h es s = Some t" and "interval_set c0 s"
  shows "interval_set c0 t
     \<and> length (in_flight t) + length (arrivals es) + 3 * ticks_since c0 s
         = length (in_flight s) + 3 * ticks_since c0 t"
  using assms
proof (induction es arbitrary: s)
  case Nil
  then show ?case by simp
next
  case (Cons e es)
  from Cons.prems obtain s1 where s1: "loop_step h e s = Some s1" and r: "loop_run h es s1 = Some t"
    by (cases "loop_step h e s") auto
  show ?case
  proof (cases e)
    case (Elapse d)
    with s1 have s1_def: "s1 = elapse d s" by simp
    from elapse_schedule [OF Cons.prems(2), of d] have i1: "interval_set c0 s1"
      and n1: "length (in_flight s1) + 3 * ticks_since c0 s = length (in_flight s) + 3 * ticks_since c0 s1"
      by (simp_all add: s1_def)
    from Cons.IH [OF r i1] n1 show ?thesis
      by (simp add: Elapse)
  next
    case (Arrive a)
    from arrive_schedule [OF Cons.prems(2)] s1 Arrive have i1: "interval_set c0 s1"
      and q1: "ticks_since c0 s1 = ticks_since c0 s"
      and n1: "length (in_flight s1) + 1 = length (in_flight s)"
      by simp_all
    from Cons.IH [OF r i1] q1 n1 show ?thesis
      by (simp add: Arrive)
  qed
qed

lemma init_schedule:
  "interval_set (clock s0) (init s0) \<and> ticks_since (clock s0) (init s0) = 0
   \<and> length (in_flight (init s0)) = length (in_flight s0) + 2"
  by (simp add: interval_set_def ticks_since_def init_def)

lemma run_from_init:
  assumes "loop_run h es (init s0) = Some t"
  shows "interval_due t = Some (clock s0 + (ticks_since (clock s0) t + 1) * poll_ms)
     \<and> clock s0 + ticks_since (clock s0) t * poll_ms \<le> clock t
     \<and> clock t < clock s0 + (ticks_since (clock s0) t + 1) * poll_ms
     \<and> length (in_flight t) + length (arrivals es)
         = length (in_flight s0) + 2 + 3 * ticks_since (clock s0) t"
proof -
  from init_schedule [of s0] have i: "interval_set (clock s0) (init s0)"
    and q: "ticks_since (clock s0) (init s0) = 0"
    and n: "length (in_flight (init s0)) = length (in_flight s0) + 2"
    by simp_all
  from run_schedule [OF assms i] q n have
    "interval_set (clock s0) t"
    "length (in_flight t) + length (arrivals es) = length (in_flight s0) + 2 + 3 * ticks_since (clock s0) t"
    by simp_all
  moreover have "clock s0 + ticks_since (clock s0) t * poll_ms \<le> clock t
      \<and> clock t < clock s0 + (ticks_since (clock s0) t + 1) * poll_ms"
    if "clock s0 \<le> clock t"
  proof -
    have "(clock t - clock s0) div poll_ms * poll_ms \<le> clock t - clock s0"
      by simp
    moreover have "clock t - clock s0 < poll_ms + (clock t - clock s0) div poll_ms * poll_ms"
      using poll_ms_pos by (rule dividend_less_div_times)
    ultimately show ?thesis
      using that unfolding ticks_since_def by (simp only: add_mult_distrib mult_1) linarith
  qed
  ultimately show ?thesis
    by (simp add: interval_set_def)
qed


text \<open>
  Claim C4, amended. When the fetch rejects, the body does not parse or the object lacks
  its data, each of the three loaders logs one message and changes nothing else. When the
  reply says \<^verbatim>\<open>success: false\<close>, nothing is logged; \<^verbatim>\<open>checkNewEvents\<close> and
  \<^verbatim>\<open>loadStats\<close> change nothing and \<^verbatim>\<open>loadDetecciones\<close> shows its placeholder. In
  all these cases the failed step leaves the array of seen identifiers, the toast, the
  pending callbacks and the interval alone and presents no notification. The failure
  does not reach the other steps: in the event loop, where replies arrive in any order
  and time passes in between, a run goes on after a failed arrival exactly as it goes on
  from the page on which that fetch is merely no longer in flight (with the placeholder
  for refused detections), the console apart, which holds one message for every arrival
  that threw, in the order of the arrivals, and nothing else. And the interval is never
  cancelled: after every run from \<open>init\<close>, whatever the replies were, the interval is
  set for the next multiple of 30 seconds after the start, and the fetches issued (those
  in flight and those answered) are the two of \<open>init\<close> and three for every multiple of
  30 seconds that has passed.
\<close>

theorem failed_fetch_steps:
  "(thrown re \<longrightarrow> checkNewEvents re s = console_error ''Error verificando eventos:'' s)
   \<and> (thrown rs \<longrightarrow> loadStats rs s = console_error stats_error s)
   \<and> (thrown rd \<longrightarrow> loadDetecciones h rd s = console_error ''Error cargando detecciones:'' s)
   \<and> (unsuccessful re \<longrightarrow> checkNewEvents re s = s)
   \<and> (unsuccessful rs \<longrightarrow> loadStats rs s = s)
   \<and> (unsuccessful rd \<longrightarrow> loadDetecciones h rd s = s\<lparr>deteccionesList := no_detecciones_html\<rparr>)
   \<and> (thrown re \<or> unsuccessful re \<longrightarrow>
        notifications (checkNewEvents re s) = notifications s
      \<and> shown (checkNewEvents re s) = shown s
      \<and> timeouts (checkNewEvents re s) = timeouts s)
   \<and> (reply_thrown a \<or> reply_unsuccessful a \<longrightarrow>
        notifications (handle h a s) = notifications s
      \<and> shown (handle h a s) = shown s
      \<and> timeouts (handle h a s) = timeouts s
      \<and> toast_className (handle h a s) = toast_className s
      \<and> interval_due (handle h a s) = interval_due s)
   \<and> (reply_thrown a \<and> array_includes (in_flight s) (request_of a) \<longrightarrow>
        loop_step h (Arrive a) s = Some (console_error (error_message a) (settled a s))
      \<and> map_option erase_console (loop_run h (Arrive a # es) s)
          = map_option erase_console (loop_run h es (settled a s)))
   \<and> (reply_unsuccessful a \<and> array_includes (in_flight s) (request_of a) \<longrightarrow>
        loop_run h (Arrive a # es) s
          = loop_run h es (if request_of a = DeteccionesRequest
                           then (settled a s)\<lparr>deteccionesList := no_detecciones_html\<rparr>
                           else settled a s))
   \<and> (loop_run h es s = Some t \<longrightarrow>
        console t = console s @ map error_message (filter reply_thrown (arrivals es)))
   \<and> (loop_run h es (init s0) = Some t \<longrightarrow>
        interval_due t = Some (clock s0 + (ticks_since (clock s0) t + 1) * poll_ms)
      \<and> clock s0 + ticks_since (clock s0) t * poll_ms \<le> clock t
      \<and> clock t < clock s0 + (ticks_since (clock s0) t + 1) * poll_ms
      \<and> length (in_flight t) + length (arrivals es)
          = length (in_flight s0) + 2 + 3 * ticks_since (clock s0) t)"
proof -
  have c7: "notifications (checkNewEvents re s) = notifications s \<and> shown (checkNewEvents re s) = shown s
      \<and> timeouts (checkNewEvents re s) = timeouts s" if "thrown re \<or> unsuccessful re"
    using that checkNewEvents_thrown [of re s] checkNewEvents_unsuccessful [of re s]
    by (auto simp: console_error_def)
  have c8: "notifications (handle h a s) = notifications s \<and> shown (handle h a s) = shown s
      \<and> timeouts (handle h a s) = timeouts s \<and> toast_className (handle h a s) = toast_className s
      \<and> interval_due (handle h a s) = interval_due s" if "reply_thrown a \<or> reply_unsuccessful a"
    using that handle_failed_keeps [of a h s] by (simp add: handle_loop_fields)
  have c9: "loop_step h (Arrive a) s = Some (console_error (error_message a) (settled a s))
      \<and> map_option erase_console (loop_run h (Arrive a # es) s)
          = map_option erase_console (loop_run h es (settled a s))"
    if "reply_thrown a \<and> array_includes (in_flight s) (request_of a)"
    using that step_thrown [of a s h] run_after_thrown [of a s h es] by blast
  have c10: "loop_run h (Arrive a # es) s
          = loop_run h es (if request_of a = DeteccionesRequest
                           then (settled a s)\<lparr>deteccionesList := no_detecciones_html\<rparr>
                           else settled a s)"
    if "reply_unsuccessful a \<and> array_includes (in_flight s) (request_of a)"
    using that run_after_unsuccessful [of a s h es] by blast
  note c11 = console_run [of h es s t]
  note c12 = run_from_init [of h es s0 t]
  show ?thesis
    apply (intro conjI impI)
    subgoal by (rule checkNewEvents_thrown)
    subgoal by (rule loadStats_thrown)
    subgoal by (rule loadDetecciones_thrown)
    subgoal by (rule checkNewEvents_unsuccessful)
    subgoal by (rule loadStats_unsuccessful)
    subgoal by (rule loadDetecciones_unsuccessful)
    subgoal using c7 by blast
    subgoal using c7 by blast
    subgoal using c7 by blast
    subgoal using c8 by blast
    subgoal using c8 by blast
    subgoal using c8 by blast
    subgoal using c8 by blast
    subgoal using c8 by blast
    subgoal using c9 by blast
    subgoal using c9 by blast
    subgoal using c10 by blast
    subgoal using c11 by blast
    subgoal using c12 by blast
    subgoal using c12 by blast
    subgoal using c12 by blast
    subgoal using c12 by blast
    done
qed

lemma console_error_fields:
  "clock (console_error m s) = clock s"
  "in_flight (console_error m s) = in_flight s"
  "interval_due (console_error m s) = interval_due s"
  "console (console_error m s) = console s @ [m]"
  by (simp_all add: console_error_def)

lemma settled_fields:
  "clock (settled a s) = clock s"
  "in_flight (settled a s) = remove1 (request_of a) (in_flight s)"
  "interval_due (settled a s) = interval_due s"
  "console (settled a s) = console s"
  by (simp_all add: settled_def)

lemma elapse_fields:
  "clock (elapse d s) = clock s + d"
  "interval_due (elapse d s) =
     (case interval_due s of None \<Rightarrow> None
      | Some due \<Rightarrow> if due \<le> clock s + d
          then Some (due + ((clock s + d - due) div poll_ms + 1) * poll_ms) else Some due)"
  "in_flight (elapse d s) =
     (case interval_due s of None \<Rightarrow> in_flight s
      | Some due \<Rightarrow> if due \<le> clock s + d
          then in_flight s @ concat (replicate ((clock s + d - due) div poll_ms + 1)
                 [StatsRequest, DeteccionesRequest, EventosRequest])
          else in_flight s)"
  by (simp_all add: elapse_def Let_def advance_loop_fields funpow_interval_callback
      split: option.splits del: funpow.simps replicate.simps)

lemma init_fields:
  "clock (init init_page) = 0"
  "in_flight (init init_page) = [StatsRequest, DeteccionesRequest]"
  "interval_due (init init_page) = Some 30000"
  "console (init init_page) = []"
  by (simp_all add: init_def init_page_def poll_ms_def)


lemma loop_step_Arrive:
  "loop_step h (Arrive a) s =
     (if array_includes (in_flight s) (request_of a) then Some (handle h a (settled a s)) else None)"
  by (simp add: settled_def)

lemma loop_step_Elapse: "loop_step h (Elapse d) s = Some (elapse d s)"
  by simp

theorem failed_fetch_steps_witness:
  "thrown (NetworkError :: event list fetched)
   \<and> checkNewEvents NetworkError init_page = console_error ''Error verificando eventos:'' init_page
   \<and> thrown (ParseError :: stats fetched)
   \<and> loadStats ParseError init_page = console_error stats_error init_page
   \<and> thrown (Reply True None :: detection list fetched)
   \<and> loadDetecciones nombre (Reply True None) init_page
       = console_error ''Error cargando detecciones:'' init_page
   \<and> unsuccessful (Reply False None :: event list fetched)
   \<and> checkNewEvents (Reply False None) init_page = init_page
   \<and> loadStats (Reply False None) init_page = init_page
   \<and> loadDetecciones nombre (Reply False None) init_page
       = init_page\<lparr>deteccionesList := no_detecciones_html\<rparr>
   \<and> reply_thrown (StatsArrives ParseError)
   \<and> array_includes (in_flight (init init_page)) (request_of (StatsArrives ParseError))
   \<and> loop_step nombre (Arrive (StatsArrives ParseError)) (init init_page)
       = Some (console_error stats_error (settled (StatsArrives ParseError) (init init_page)))
   \<and> reply_unsuccessful (DeteccionesArrive (Reply False None))
   \<and> array_includes (in_flight (init init_page)) (request_of (DeteccionesArrive (Reply False None)))
   \<and> loop_run nombre [Arrive (DeteccionesArrive (Reply False None))] (init init_page)
       = Some ((settled (DeteccionesArrive (Reply False None)) (init init_page))
           \<lparr>deteccionesList := no_detecciones_html\<rparr>)
   \<and> map_option clock (loop_run nombre failing_run (init init_page)) = Some 60000
   \<and> map_option console (loop_run nombre failing_run (init init_page))
       = Some [stats_error, ''Error verificando eventos:'']
   \<and> map_option interval_due (loop_run nombre failing_run (init init_page)) = Some (Some 90000)
   \<and> map_option in_flight (loop_run nombre failing_run (init init_page))
       = Some [StatsRequest, DeteccionesRequest, StatsRequest, DeteccionesRequest, EventosRequest]"
proof -
  let ?s1 = "init init_page"
  let ?s2 = "console_error stats_error (settled (StatsArrives ParseError) ?s1)"
  let ?s3 = "elapse 30000 ?s2"
  let ?s4 = "console_error ''Error verificando eventos:'' (settled (EventosArrive NetworkError) ?s3)"
  let ?s5 = "(settled (DeteccionesArrive (Reply False None)) ?s4)\<lparr>deteccionesList := no_detecciones_html\<rparr>"
  let ?s6 = "elapse 30000 ?s5"
  note fields = console_error_fields settled_fields elapse_fields init_fields
  note f1 = failed_fetch_steps [where re = NetworkError and rs = ParseError and rd = "Reply True None"
      and s = "init_page" and h = nombre and a = "StatsArrives ParseError" and es = "[]"
      and t = init_page and s0 = init_page]
  note f2 = failed_fetch_steps [where re = "Reply False None" and rs = "Reply False None"
      and rd = "Reply False None" and s = "init_page" and h = nombre
      and a = "StatsArrives ParseError" and es = "[]" and t = init_page and s0 = init_page]
  note f3 = failed_fetch_steps [where re = NetworkError and rs = ParseError and rd = "Reply True None"
      and s = ?s1 and h = nombre and a = "StatsArrives ParseError" and es = "[]"
      and t = ?s1 and s0 = init_page]
  note f4 = failed_fetch_steps [where re = NetworkError and rs = ParseError and rd = "Reply True None"
      and s = ?s1 and h = nombre and a = "DeteccionesArrive (Reply False None)"
      and es = "[]" and t = ?s1 and s0 = init_page]
  have p1: "thrown (NetworkError :: event list fetched)
      \<and> checkNewEvents NetworkError init_page = console_error ''Error verificando eventos:'' init_page
      \<and> thrown (ParseError :: stats fetched)
      \<and> loadStats ParseError init_page = console_error stats_error init_page
      \<and> thrown (Reply True None :: detection list fetched)
      \<and> loadDetecciones nombre (Reply True None) init_page
          = console_error ''Error cargando detecciones:'' init_page"
    using f1 by simp
  have p2: "unsuccessful (Reply False None :: event list fetched)
      \<and> checkNewEvents (Reply False None) init_page = init_page
      \<and> loadStats (Reply False None) init_page = init_page
      \<and> loadDetecciones nombre (Reply False None) init_page
          = init_page\<lparr>deteccionesList := no_detecciones_html\<rparr>"
    using f2 by simp
  have p3: "reply_thrown (StatsArrives ParseError)
      \<and> array_includes (in_flight ?s1) (request_of (StatsArrives ParseError))
      \<and> loop_step nombre (Arrive (StatsArrives ParseError)) ?s1 = Some ?s2"
    using f3 by (simp add: init_fields)
  have p4: "reply_unsuccessful (DeteccionesArrive (Reply False None))
      \<and> array_includes (in_flight ?s1) (request_of (DeteccionesArrive (Reply False None)))
      \<and> loop_run nombre [Arrive (DeteccionesArrive (Reply False None))] ?s1
          = Some ((settled (DeteccionesArrive (Reply False None)) ?s1)
              \<lparr>deteccionesList := no_detecciones_html\<rparr>)"
    using f4 by (simp add: init_fields)
  have in3: "in_flight ?s3 = [DeteccionesRequest, StatsRequest, DeteccionesRequest, EventosRequest]"
    by (simp add: fields poll_ms_def)
  have st3: "loop_step nombre (Arrive (EventosArrive NetworkError)) ?s3 = Some ?s4"
    using failed_fetch_steps [where a = "EventosArrive NetworkError" and s = ?s3 and h = nombre
        and re = NetworkError and rs = ParseError and rd = ParseError and es = "[]" and t = ?s3
        and s0 = init_page]
    by (simp add: in3)
  have in4: "in_flight ?s4 = [DeteccionesRequest, StatsRequest, DeteccionesRequest]"
    by (simp add: console_error_fields settled_fields in3)
  have st4: "loop_step nombre (Arrive (DeteccionesArrive (Reply False None))) ?s4 = Some ?s5"
    by (simp add: loop_step_Arrive in4 loadDetecciones_unsuccessful del: loop_step.simps)
  have st1: "loop_step nombre (Arrive (StatsArrives ParseError)) ?s1 = Some ?s2"
    using p3 by blast
  have run: "loop_run nombre failing_run ?s1 = Some ?s6"
    by (simp add: failing_run_def st1 st3 st4 loop_step_Elapse del: loop_step.simps)
  note f5 = failed_fetch_steps [where re = NetworkError and rs = ParseError and rd = "Reply True None"
      and s = ?s1 and h = nombre and a = "StatsArrives ParseError" and es = failing_run
      and t = ?s6 and s0 = init_page]
  have ct: "clock ?s6 = 60000"
    by (simp add: fields)
  have "console ?s6 = console ?s1 @ map error_message (filter reply_thrown (arrivals failing_run))"
    using f5 run by blast
  then have p5: "console ?s6 = [stats_error, ''Error verificando eventos:'']"
    by (simp add: failing_run_def init_fields)
  have "interval_due ?s6 = Some (clock init_page + (ticks_since (clock init_page) ?s6 + 1) * poll_ms)"
    using f5 run by blast
  moreover have "clock init_page = 0"
    by (simp add: init_page_def)
  ultimately have p6: "interval_due ?s6 = Some 90000"
    by (simp add: ticks_since_def ct poll_ms_def)
  have p7: "in_flight ?s6
      = [StatsRequest, DeteccionesRequest, StatsRequest, DeteccionesRequest, EventosRequest]"
    by (simp add: fields in4 poll_ms_def)
  have p8: "map_option clock (loop_run nombre failing_run ?s1) = Some 60000
      \<and> map_option console (loop_run nombre failing_run ?s1)
          = Some [stats_error, ''Error verificando eventos:'']
      \<and> map_option interval_due (loop_run nombre failing_run ?s1) = Some (Some 90000)
      \<and> map_option in_flight (loop_run nombre failing_run ?s1)
          = Some [StatsRequest, DeteccionesRequest, StatsRequest, DeteccionesRequest, EventosRequest]"
    by (simp only: run option.map ct p5 p6 p7 simp_thms)
  from p1 p2 p3 p4 p8 show ?thesis
    by blast
qed

section \<open>The report generators: properties\<close>


lemma show_nat_1: "show_nat (Suc 0) = ''1''"
  by (simp add: show_nat.simps digit_char_def)

lemma join_Cons: "join sep (x # xs) = x @ concat (map (\<lambda>m. sep @ m) xs)"
  by (induction sep xs arbitrary: x rule: join.induct) simp_all

lemma generateCSV_spec:
  assumes "items \<noteq> []"
  shows "generateCSV num_text (Some items) = delimited_text_spec num_text items"
proof -
  from assms obtain first rest where items: "items = first # rest"
    by (cases items) auto
  have eq: "(\<lambda>item. join '','' (map (join_text num_text) (object_values item)))
      = record_line num_text"
    by (rule ext) (simp add: record_line_def object_values_def case_prod_unfold comp_def)
  show ?thesis
    by (simp add: items generateCSV_def eq delimited_text_spec_def emit_lines_def header_line_def
        object_keys_def join_Cons)
qed

text \<open>
  Claim C6. For a sequence of records that is not empty, the generic export is one header
  line, the names of the fields of the first record joined by commas, followed by one
  line for each record, its values joined by commas. Nothing is escaped: a text value is
  written as it is, so the export of one record with one or two text fields is the names,
  a line feed and the texts, whatever commas or quotes the texts hold.
\<close>

theorem generateCSV_header_and_lines:
  "(items \<noteq> [] \<longrightarrow> generateCSV num_text (Some items) = delimited_text_spec num_text items)
   \<and> generateCSV num_text (Some [[(k, JStr v)]]) = k @ [newline] @ v
   \<and> generateCSV num_text (Some [[(k1, JStr v1), (k2, JStr v2)]])
       = k1 @ '','' @ k2 @ [newline] @ v1 @ '','' @ v2"
  using generateCSV_spec [of items num_text]
  by (simp add: generateCSV_def object_keys_def object_values_def)

theorem generateCSV_header_and_lines_witness:
  \<open>generateCSV show_int (Some [[(''id'', JNum 1), (''nombre'', JStr ''Ana, "la" jefa''), (''notas'', JNull)],
       [(''id'', JNum 2), (''nombre'', JStr ''Luis''), (''notas'', JBool True)]])
   = ''id,nombre,notas'' @ [newline] @ ''1,Ana, "la" jefa,'' @ [newline] @ ''2,Luis,true''\<close>
  using generateCSV_header_and_lines [of "[[(''id'', JNum 1), (''nombre'', JStr (''Ana, '' @ [dquote] @ ''la'' @ [dquote] @ '' jefa'')), (''notas'', JNull)],
       [(''id'', JNum 2), (''nombre'', JStr ''Luis''), (''notas'', JBool True)]]" show_int]
  by (simp add: delimited_text_spec_def emit_lines_def header_line_def record_line_def
      show_int_def show_nat.simps digit_char_def show_bool_def dquote_def)


text \<open>
  The double of 0.873 times 100 is the double 87.2999999999999971..., which prints as
  87.3. The double of 0.5555 times 100 is just below 55.55 and prints as 55.5, where the
  exact product 55.55 would print as 55.6.
\<close>

lemma to_double_examples:
  "to_double (1 / 10) = 3602879701896397 / 2 ^ 55"
  "to_double (1 / 3) = 6004799503160661 / 2 ^ 54"
  "to_double 9007199254740993 = 9007199254740992"
  "to_double 9007199254740995 = 9007199254740996"
  "to_double 100 = 100"
  "to_double (1 / 2) = 1 / 2"
  by code_simp+

lemma double_mul_ana: "double_mul (to_double (873 / 1000)) 100 = 6143191366710067 / 2 ^ 46"
  by code_simp

lemma toFixed1_ana: "toFixed1 (double_mul (to_double (873 / 1000)) 100) = ''87.3''"
  by code_simp

lemma toFixed1_below_tie: "toFixed1 (double_mul (to_double (5555 / 10000)) 100) = ''55.5''"
  by code_simp

text \<open>
  Claim C8. The detections report of the single record of Ana Lopez, not unknown, with
  confidence 0.873 (the double that the JSON number 0.873 denotes), is the head of the
  report for one record followed by one block: the ordinal \<open>1.\<close> with the name
  \<open>Ana Lopez\<close>, the date, the state \<open>CONOCIDO\<close> and the confidence \<open>87.3%\<close>, a
  percentage with one digit after the point.
\<close>

theorem ana_lopez_block:
  "generatePDFContent now [\<lparr> nombre = ''Ana'', apellido = Some ''Lopez'', es_desconocido = False,
       confianza = to_double (873 / 1000), timestamp_det = ''2024-01-01T10:00:00Z'' \<rparr>]
   = report_head now 1 @
     ''1. Ana Lopez'' @ [newline] @
     ''   Fecha: 2024-01-01T10:00:00Z'' @ [newline] @
     ''   Estado: CONOCIDO'' @ [newline] @
     ''   Confianza: 87.3%'' @ [newline] @
     [newline]"
  by (simp add: generatePDFContent_def detection_block_def toFixed1_ana show_nat_1)

text \<open>
  Claim C10. The events export of the empty list is the fixed header line followed by a
  line feed and nothing else; it is not empty, while the generic export of the empty
  sequence is the empty text.
\<close>

theorem eventos_csv_empty:
  "generateEventosCSV [] = ''ID,Tipo,Severidad,Descripcion,Timestamp,Camara,Resuelto'' @ [newline]
   \<and> generateEventosCSV [] \<noteq> []
   \<and> generateCSV num_text (Some []) = []"
  by (simp add: generateEventosCSV_def eventos_csv_header_def generateCSV_def)

section \<open>Reading the events export back\<close>

lemma digit_char_cases:
  assumes "d < 10"
  shows "digit_char d \<in> set ''0123456789'' \<and> digit_val (digit_char d) = Some d"
proof -
  from assms have "d = 0 \<or> d = 1 \<or> d = 2 \<or> d = 3 \<or> d = 4 \<or> d = 5 \<or> d = 6 \<or> d = 7 \<or> d = 8 \<or> d = 9"
    by arith
  then show ?thesis
    by (elim disjE) (simp_all add: digit_char_def digit_val_def)
qed

lemma parse_digits_snoc:
  "parse_digits acc (cs @ [c]) =
     (case parse_digits acc cs of None \<Rightarrow> None
      | Some a \<Rightarrow> (case digit_val c of None \<Rightarrow> None | Some d \<Rightarrow> Some (10 * a + d)))"
  by (induction cs arbitrary: acc) (simp_all split: option.splits)

lemma parse_digits_show_nat: "parse_digits 0 (show_nat n) = Some n"
proof (induction n rule: show_nat.induct)
  case (1 n)
  show ?case
  proof (cases "n < 10")
    case True
    then show ?thesis
      by (simp add: show_nat.simps [of n] digit_char_cases)
  next
    case False
    with 1 have "parse_digits 0 (show_nat (n div 10)) = Some (n div 10)"
      by simp
    moreover have "digit_val (digit_char (n mod 10)) = Some (n mod 10)"
      by (simp add: digit_char_cases)
    ultimately show ?thesis
      using False by (simp add: show_nat.simps [of n] parse_digits_snoc)
  qed
qed

lemma show_nat_digits: "show_nat n \<noteq> [] \<and> set (show_nat n) \<subseteq> set ''0123456789''"
proof (induction n rule: show_nat.induct)
  case (1 n)
  show ?case
  proof (cases "n < 10")
    case True
    then show ?thesis
      using digit_char_cases [of n] by (simp add: show_nat.simps [of n])
  next
    case False
    with 1 have "set (show_nat (n div 10)) \<subseteq> set ''0123456789''"
      by simp
    then show ?thesis
      using False digit_char_cases [of "n mod 10"] by (simp add: show_nat.simps [of n])
  qed
qed

lemma parse_nat_show_nat: "parse_nat (show_nat n) = Some n"
  by (simp add: parse_nat_def show_nat_digits parse_digits_show_nat)

lemma show_nat_no_minus: "show_nat n = c # cs \<Longrightarrow> c \<noteq> CHR ''-''"
  using show_nat_digits [of n] by auto

lemma parse_int_show_int: "parse_int (show_int i) = Some i"
proof (cases "i < 0")
  case True
  then show ?thesis
    by (simp add: show_int_def parse_int_def parse_nat_show_nat)
next
  case False
  obtain c cs where cs: "show_nat (nat i) = c # cs"
    using show_nat_digits [of "nat i"] by (cases "show_nat (nat i)") auto
  then have "c \<noteq> CHR ''-''"
    by (rule show_nat_no_minus)
  moreover have "parse_nat (c # cs) = Some (nat i)"
    using parse_nat_show_nat [of "nat i"] cs by simp
  ultimately show ?thesis
    using False cs by (simp add: show_int_def parse_int_def)
qed

lemma show_int_no_comma: "CHR '','' \<notin> set (show_int i)"
  using show_nat_digits [of "nat i"] show_nat_digits [of "nat (- i)"]
  by (auto simp: show_int_def)

lemma show_int_nonempty: "show_int i \<noteq> []"
  using show_nat_digits [of "nat i"] by (simp add: show_int_def)

lemma takeWhile_until: "c \<notin> set xs \<Longrightarrow> takeWhile (\<lambda>x. x \<noteq> c) (xs @ c # ys) = xs"
  by (induction xs) auto

lemma dropWhile_until: "c \<notin> set xs \<Longrightarrow> dropWhile (\<lambda>x. x \<noteq> c) (xs @ c # ys) = c # ys"
  by (induction xs) auto

lemma parse_quoted_quoted:
  "dquote \<notin> set v \<Longrightarrow> parse_quoted (quoted v @ rest) = Some (v, rest)"
  by (simp add: parse_quoted_def quoted_def expect_def takeWhile_until dropWhile_until)

lemma parse_field_quoted:
  "dquote \<notin> set v \<Longrightarrow> parse_field (quoted v @ CHR '','' # rest) = Some (v, rest)"
  by (simp add: parse_field_def parse_quoted_quoted expect_def)

lemma parse_bool_show_bool: "parse_bool (show_bool b @ rest) = Some (b, rest)"
  by (simp add: parse_bool_def show_bool_def)

lemma parse_row_row:
  assumes "no_dquote e"
  shows "parse_row (eventos_csv_row e @ rest) = Some (e, rest)"
proof -
  let ?tail = "quoted (tipo e) @ CHR '','' # quoted (severidad e) @ CHR '','' #
     quoted (descripcion e) @ CHR '','' # quoted (timestamp e) @ CHR '','' #
     quoted (camara_nombre e) @ CHR '','' # show_bool (resuelto e) @ rest"
  have row: "eventos_csv_row e @ rest = show_int (id_ev e) @ CHR '','' # ?tail"
    by (simp add: eventos_csv_row_def)
  have "takeWhile (\<lambda>c. c \<noteq> CHR '','') (eventos_csv_row e @ rest) = show_int (id_ev e)"
    unfolding row by (rule takeWhile_until) (rule show_int_no_comma)
  moreover have "dropWhile (\<lambda>c. c \<noteq> CHR '','') (eventos_csv_row e @ rest) = CHR '','' # ?tail"
    unfolding row by (rule dropWhile_until) (rule show_int_no_comma)
  ultimately show ?thesis
    using assms
    by (simp add: parse_row_def parse_int_show_int expect_def parse_field_quoted
        parse_bool_show_bool no_dquote_def)
qed

lemma eventos_csv_row_nonempty: "eventos_csv_row e \<noteq> []"
  by (simp add: eventos_csv_row_def show_int_nonempty)

lemma parse_rows_join:
  assumes "list_all no_dquote es" and "es \<noteq> []" and "length es \<le> fuel"
  shows "parse_rows fuel (join [newline] (map eventos_csv_row es)) = Some es"
  using assms
proof (induction es arbitrary: fuel)
  case Nil
  then show ?case by simp
next
  case (Cons e es)
  from Cons.prems obtain k where fuel: "fuel = Suc k" and k: "length es \<le> k"
    by (cases fuel) auto
  show ?case
  proof (cases es)
    case Nil
    then show ?thesis
      using Cons.prems parse_row_row [of e "[]"] by (simp add: fuel)
  next
    case (Cons e' es')
    then have "parse_rows k (join [newline] (map eventos_csv_row es)) = Some es"
      using Cons.IH [of k] Cons.prems k by simp
    moreover have "join [newline] (map eventos_csv_row (e # es))
        = eventos_csv_row e @ newline # join [newline] (map eventos_csv_row es)"
      by (simp add: Cons)
    ultimately show ?thesis
      using Cons.prems parse_row_row [of e "newline # join [newline] (map eventos_csv_row es)"]
      by (simp add: fuel)
  qed
qed

lemma length_join_rows:
  "length es \<le> length (join [newline] (map eventos_csv_row es))"
proof (induction es rule: induct_list012)
  case 1
  show ?case by simp
next
  case (2 e)
  show ?case
    using eventos_csv_row_nonempty [of e] by (cases "eventos_csv_row e") simp_all
next
  case (3 e e' es)
  then show ?case by simp
qed

lemma join_rows_nonempty: "es \<noteq> [] \<Longrightarrow> join [newline] (map eventos_csv_row es) \<noteq> []"
  using length_join_rows [of es] by (cases es) auto

text \<open>
  The export puts a text between double quotes and leaves a double quote inside the text
  as it is. Two different events, one with the type \<^verbatim>\<open>a","b\<close> and the severity
  \<^verbatim>\<open>c\<close>, the other with the type \<^verbatim>\<open>a\<close> and the severity \<^verbatim>\<open>b","c\<close>, give the
  same export, so no reader can give back both; the reader above rejects the text.
\<close>

theorem quote_collision_counterexample:
  "quote_event_1 \<noteq> quote_event_2
   \<and> generateEventosCSV [quote_event_1] = generateEventosCSV [quote_event_2]
   \<and> parse_eventos_csv (generateEventosCSV [quote_event_1]) \<noteq> Some [quote_event_1]"
proof -
  have "parse_eventos_csv (generateEventosCSV [quote_event_1]) = None"
    by code_simp
  then show ?thesis
    by (simp add: quote_event_1_def quote_event_2_def generateEventosCSV_def eventos_csv_row_def
        quoted_def dquote_def)
qed

text \<open>
  Claim C5, amended. For every list of events in which no type, severity, description,
  timestamp or camera name holds a double quote, reading the events export back gives the
  list itself: the same identifier, type, severity, description, timestamp, camera name
  and resolved flag for every record, in the same order. The texts may hold commas and
  line feeds, and the list may be empty.
\<close>

theorem eventos_csv_round_trip:
  "list_all no_dquote es \<Longrightarrow> parse_eventos_csv (generateEventosCSV es) = Some es"
proof (cases "es = []")
  case True
  then show ?thesis
    by (simp add: parse_eventos_csv_def generateEventosCSV_def)
next
  case False
  assume "list_all no_dquote es"
  then have "parse_rows (length (join [newline] (map eventos_csv_row es)))
      (join [newline] (map eventos_csv_row es)) = Some es"
    using False length_join_rows by (rule parse_rows_join)
  then show ?thesis
    using False by (simp add: parse_eventos_csv_def generateEventosCSV_def join_rows_nonempty)
qed

theorem eventos_csv_round_trip_witness:
  \<open>list_all no_dquote [example_event 1, example_event (- 22)]
   \<and> parse_eventos_csv (generateEventosCSV [example_event 1, example_event (- 22)])
       = Some [example_event 1, example_event (- 22)]\<close>
proof -
  have h: "list_all no_dquote [example_event 1, example_event (- 22)]"
    by (simp add: no_dquote_def example_event_def dquote_def)
  show ?thesis
    using h eventos_csv_round_trip [OF h] by simp
qed

end
